theory Spec2Isabelle
  imports Main
begin

section \<open>JavaScript strings\<close>

text \<open>
  The event model (\<^verbatim>\<open>event.model.ts\<close>) and the booking model work on JavaScript strings.
  A string is modelled as a list of code units of type \<^typ>\<open>char\<close>, read as the code
  points U+0000 to U+00FF. This range is closed under \<^verbatim>\<open>toLowerCase\<close>, and every
  character class of the regular expressions in the source is decided inside it.
\<close>

definition in_range :: "char \<Rightarrow> char \<Rightarrow> char \<Rightarrow> bool" where
  \<comment> \<open>a class range such as \<^verbatim>\<open>a-z\<close>: the code unit lies between the two bounds\<close>
  "in_range lo hi c = ((of_char lo :: nat) \<le> of_char c \<and> (of_char c :: nat) \<le> of_char hi)"

definition is_space :: "char \<Rightarrow> bool" where
  \<comment> \<open>the class \<^verbatim>\<open>\s\<close>, which is also what \<^verbatim>\<open>trim\<close> strips: TAB, LF, VT, FF, CR, SP, NBSP\<close>
  "is_space c = ((of_char c :: nat) \<in> {9, 10, 11, 12, 13, 32, 160})"

definition is_digit :: "char \<Rightarrow> bool" where
  \<comment> \<open>the class \<^verbatim>\<open>\d\<close>\<close>
  "is_digit c = in_range (CHR ''0'') (CHR ''9'') c"

definition lower_char :: "char \<Rightarrow> char" where
  \<comment> \<open>A-Z and the upper-case letters U+00C0 to U+00DE (U+00D7 is the multiplication sign)\<close>
  "lower_char c = (let n = (of_char c :: nat) in
     if (65 \<le> n \<and> n \<le> 90) \<or> (192 \<le> n \<and> n \<le> 222 \<and> n \<noteq> 215)
     then char_of (n + 32) else c)"

definition toLowerCase :: "string \<Rightarrow> string" where
  "toLowerCase s = map lower_char s"

definition trim :: "string \<Rightarrow> string" where
  "trim s = rev (dropWhile is_space (rev (dropWhile is_space s)))"

text \<open>
  \<^verbatim>\<open>s.replace(/[C]/g, rep)\<close> for a character class \<open>C\<close>: every code unit of the class
  is one match and is replaced.
\<close>

fun replace_class :: "(char \<Rightarrow> bool) \<Rightarrow> string \<Rightarrow> string \<Rightarrow> string" where
  "replace_class C rep [] = []"
| "replace_class C rep (c # cs) =
     (if C c then rep @ replace_class C rep cs else c # replace_class C rep cs)"

text \<open>
  \<^verbatim>\<open>s.replace(/[C]+/g, rep)\<close>: the quantifier is greedy, so a match starts at the first
  code unit of the class and takes the whole run; the scan goes on after the run.
\<close>

function replace_class_plus :: "(char \<Rightarrow> bool) \<Rightarrow> string \<Rightarrow> string \<Rightarrow> string" where
  "replace_class_plus C rep [] = []"
| "replace_class_plus C rep (c # cs) =
     (if C c then rep @ replace_class_plus C rep (dropWhile C cs)
      else c # replace_class_plus C rep cs)"
  by pat_completeness auto
termination
  by (relation "measure (\<lambda>(C, rep, s). length s)")
     (auto simp: length_dropWhile_le less_Suc_eq_le)

section \<open>Slug generator\<close>

definition is_hyphen :: "char \<Rightarrow> bool" where
  "is_hyphen c = (c = CHR ''-'')"

definition slug_unsafe :: "char \<Rightarrow> bool" where
  \<comment> \<open>the negated class \<^verbatim>\<open>[^a-z0-9\s-]\<close>\<close>
  "slug_unsafe c =
     (\<not> (in_range (CHR ''a'') (CHR ''z'') c \<or> in_range (CHR ''0'') (CHR ''9'') c
         \<or> is_space c \<or> c = CHR ''-''))"

definition slugifyTitle :: "string \<Rightarrow> string" where
  "slugifyTitle title =
     replace_class_plus is_hyphen ''-''
       (replace_class_plus is_space ''-''
         (replace_class slug_unsafe ''''
           (trim (toLowerCase title))))"

subsection \<open>The algorithm as the specification words it\<close>

text \<open>
  Removing characters is a filter. Collapsing runs is a left-to-right scan that remembers
  whether the previous character belonged to a run: the first character of a run emits
  the hyphen, the others emit nothing.
\<close>

fun collapse_runs :: "(char \<Rightarrow> bool) \<Rightarrow> bool \<Rightarrow> string \<Rightarrow> string" where
  "collapse_runs C in_run [] = []"
| "collapse_runs C in_run (c # cs) =
     (if C c then (if in_run then collapse_runs C True cs
                   else CHR ''-'' # collapse_runs C True cs)
      else c # collapse_runs C False cs)"

definition slug_keeps :: "char \<Rightarrow> bool" where
  \<comment> \<open>a lower-case letter, a digit, whitespace or a hyphen\<close>
  "slug_keeps c =
     (in_range (CHR ''a'') (CHR ''z'') c \<or> is_digit c \<or> is_space c \<or> is_hyphen c)"

definition slugify_spec :: "string \<Rightarrow> string" where
  "slugify_spec title =
     collapse_runs is_hyphen False
       (collapse_runs is_space False
         (filter slug_keeps (trim (toLowerCase title))))"

text \<open>URL-safe as the data model states it.\<close>

definition slug_char :: "char \<Rightarrow> bool" where
  \<comment> \<open>the class \<^verbatim>\<open>[a-z0-9-]\<close>\<close>
  "slug_char c =
     (in_range (CHR ''a'') (CHR ''z'') c \<or> in_range (CHR ''0'') (CHR ''9'') c \<or> c = CHR ''-'')"

fun no_hyphen_run :: "string \<Rightarrow> bool" where
  "no_hyphen_run (a # b # cs) = (\<not> (a = CHR ''-'' \<and> b = CHR ''-'') \<and> no_hyphen_run (b # cs))"
| "no_hyphen_run cs = True"

definition url_safe :: "string \<Rightarrow> bool" where
  "url_safe s =
     (s \<noteq> [] \<and> list_all slug_char s \<and> hd s \<noteq> CHR ''-'' \<and> last s \<noteq> CHR ''-''
      \<and> no_hyphen_run s)"

section \<open>Regular expressions\<close>

text \<open>
  The two anchored patterns of the source (\<^verbatim>\<open>/^...$/\<close> in \<^verbatim>\<open>normalizeTime\<close> and
  \<^verbatim>\<open>isValidEmail\<close>) are built from character classes, sequence, alternation,
  \<^verbatim>\<open>?\<close> and \<^verbatim>\<open>+\<close>. The matcher is the backtracking one: \<open>rests r s\<close> lists, in the
  order in which the engine tries them, the remainders of \<open>s\<close> after each way of
  matching \<open>r\<close> at its start. Quantifiers are greedy, and an iteration of \<^verbatim>\<open>+\<close> that
  consumes nothing is not repeated.
\<close>

datatype regex =
    Cls "char \<Rightarrow> bool"
  | Cat regex regex
  | Alt regex regex
  | Opt regex
  | Plus regex

fun rests :: "regex \<Rightarrow> string \<Rightarrow> string list" where
  "rests (Cls C) s = (case s of [] \<Rightarrow> [] | c # cs \<Rightarrow> if C c then [cs] else [])"
| "rests (Cat a b) s = concat (map (rests b) (rests a s))"
| "rests (Alt a b) s = rests a s @ rests b s"
| "rests (Opt a) s = rests a s @ [s]"
| "rests (Plus a) s =
     concat (map (\<lambda>t. if length t < length s then rests (Plus a) t @ [t] else [t]) (rests a s))"

definition regex_test :: "regex \<Rightarrow> string \<Rightarrow> bool" where
  \<comment> \<open>\<^verbatim>\<open>/^r$/.test(s)\<close>: some way of matching \<open>r\<close> from the start ends at the end of \<open>s\<close>\<close>
  "regex_test r s = ([] \<in> set (rests r s))"

definition one_of :: "string \<Rightarrow> char \<Rightarrow> bool" where
  \<comment> \<open>a class that lists its members, such as \<^verbatim>\<open>[01]\<close>\<close>
  "one_of cs c = (c \<in> set cs)"

definition lit :: "char \<Rightarrow> regex" where
  "lit x = Cls (\<lambda>c. c = x)"

section \<open>Errors\<close>

text \<open>
  Every failure of the source is \<^verbatim>\<open>throw new Error(message)\<close>, caught by the hook and
  handed to \<^verbatim>\<open>next\<close>. There is one constructor for each throw site; \<open>message\<close> gives its
  text. \<open>StoreFailure\<close> stands for a rejection of the awaited store call, which the same
  \<^verbatim>\<open>catch\<close> hands on unchanged.
\<close>

datatype error =
    TitleRequired | DescriptionRequired | OverviewRequired | ImageRequired | VenueRequired
  | LocationRequired | ModeRequired | AudienceRequired | OrganizerRequired
  | AgendaRequired | TagsRequired | AgendaItemEmpty | TagEmpty
  | InvalidTimeFormat | InvalidDateFormat
  | EmailRequired | InvalidEmailFormat | EventNotFound | StoreFailure

fun message :: "error \<Rightarrow> string" where
  "message TitleRequired = ''Title is required.''"
| "message DescriptionRequired = ''Description is required.''"
| "message OverviewRequired = ''Overview is required.''"
| "message ImageRequired = ''Image is required.''"
| "message VenueRequired = ''Venue is required.''"
| "message LocationRequired = ''Location is required.''"
| "message ModeRequired = ''Mode is required.''"
| "message AudienceRequired = ''Audience is required.''"
| "message OrganizerRequired = ''Organizer is required.''"
| "message AgendaRequired = ''Agenda is required and cannot be empty.''"
| "message TagsRequired = ''Tags are required and cannot be empty.''"
| "message AgendaItemEmpty = ''Agenda items cannot be empty.''"
| "message TagEmpty = ''Tags cannot contain empty values.''"
| "message InvalidTimeFormat = ''Invalid time format. Expected HH:MM (24-hour).''"
| "message InvalidDateFormat = ''Invalid date format.''"
| "message EmailRequired = ''Email is required.''"
| "message InvalidEmailFormat = ''Invalid email format.''"
| "message EventNotFound = ''Referenced event does not exist.''"
| "message StoreFailure = []"

text \<open>
  The specification groups the failures into kinds (a required field that is empty or
  absent, a list element that is empty after trimming, a date, time or email of the wrong
  shape, a reference to no event, a failed store call).
\<close>

datatype error_kind =
  MissingField | EmptyListItem | InvalidFormat | DanglingReference | StoreUnavailable

fun kind :: "error \<Rightarrow> error_kind" where
  "kind AgendaItemEmpty = EmptyListItem"
| "kind TagEmpty = EmptyListItem"
| "kind InvalidTimeFormat = InvalidFormat"
| "kind InvalidDateFormat = InvalidFormat"
| "kind InvalidEmailFormat = InvalidFormat"
| "kind EventNotFound = DanglingReference"
| "kind StoreFailure = StoreUnavailable"
| "kind e = MissingField"

definition and_then :: "'e + 'a \<Rightarrow> ('a \<Rightarrow> 'e + 'b) \<Rightarrow> 'e + 'b" where
  \<comment> \<open>statements in sequence inside the \<^verbatim>\<open>try\<close> block: the first throw ends it\<close>
  "and_then r k = (case r of Inl e \<Rightarrow> Inl e | Inr x \<Rightarrow> k x)"

section \<open>Temporal normalizer\<close>

subsection \<open>normalizeTime\<close>

definition time_re :: regex where
  \<comment> \<open>\<^verbatim>\<open>/^([01]\d|2[0-3]):([0-5]\d)(?::([0-5]\d))?$/\<close>\<close>
  "time_re =
     Cat (Alt (Cat (Cls (one_of ''01'')) (Cls is_digit))
              (Cat (lit (CHR ''2'')) (Cls (in_range (CHR ''0'') (CHR ''3'')))))
    (Cat (lit (CHR '':''))
    (Cat (Cat (Cls (in_range (CHR ''0'') (CHR ''5''))) (Cls is_digit))
         (Opt (Cat (lit (CHR '':''))
                   (Cat (Cls (in_range (CHR ''0'') (CHR ''5''))) (Cls is_digit))))))"

text \<open>
  Group 1 of the pattern starts at index 0 and always spans two code units, and group 2
  follows the colon, so \<^verbatim>\<open>match[1]\<close> and \<^verbatim>\<open>match[2]\<close> are the code units 0-1 and 3-4 of
  the trimmed input.
\<close>

definition normalizeTime :: "string \<Rightarrow> error + string" where
  "normalizeTime time =
     (let trimmed = trim time in
      if \<not> regex_test time_re trimmed then Inl InvalidTimeFormat
      else (let hours = take 2 trimmed; minutes = take 2 (drop 3 trimmed)
            in Inr (hours @ '':'' @ minutes)))"

subsection \<open>The time format as the specification words it\<close>

definition digit_value :: "char \<Rightarrow> nat" where
  "digit_value c = of_char c - 48"

definition two_digits :: "char \<Rightarrow> char \<Rightarrow> nat" where
  "two_digits a b = 10 * digit_value a + digit_value b"

definition well_formed_HHMM :: "string \<Rightarrow> bool" where
  \<comment> \<open>\<^verbatim>\<open>HH:MM\<close> with hours 00 to 23 and minutes 00 to 59\<close>
  "well_formed_HHMM s =
     (length s = 5 \<and> is_digit (s ! 0) \<and> is_digit (s ! 1) \<and> s ! 2 = CHR '':''
      \<and> is_digit (s ! 3) \<and> is_digit (s ! 4)
      \<and> two_digits (s ! 0) (s ! 1) \<le> 23 \<and> two_digits (s ! 3) (s ! 4) \<le> 59)"

definition well_formed_SS :: "string \<Rightarrow> bool" where
  \<comment> \<open>the optional \<^verbatim>\<open>:SS\<close> with seconds 00 to 59\<close>
  "well_formed_SS s =
     (length s = 3 \<and> s ! 0 = CHR '':'' \<and> is_digit (s ! 1) \<and> is_digit (s ! 2)
      \<and> two_digits (s ! 1) (s ! 2) \<le> 59)"

definition well_formed_time :: "string \<Rightarrow> bool" where
  "well_formed_time s =
     (well_formed_HHMM (take 5 s) \<and> (drop 5 s = [] \<or> well_formed_SS (drop 5 s)))"

subsection \<open>The host's Date\<close>

text \<open>
  \<^verbatim>\<open>normalizeDate\<close> relies on \<^verbatim>\<open>new Date(dateStr)\<close> and on the UTC getters. Time values
  are integers (milliseconds since the epoch); an invalid date (\<^verbatim>\<open>NaN\<close>) is \<open>None\<close>.
  The calendar arithmetic below is the one ECMA-262 fixes for every host: \<open>Day\<close>,
  \<open>DaysInYear\<close>, \<open>DayFromYear\<close>, \<open>YearFromTime\<close>, \<open>MonthFromTime\<close>, \<open>DateFromTime\<close>,
  \<open>MakeDay\<close>, \<open>MakeTime\<close>, \<open>MakeDate\<close>.
\<close>

definition msPerDay :: int where
  "msPerDay = 86400000"

definition Day :: "int \<Rightarrow> int" where
  "Day t = t div msPerDay"

definition DaysInYear :: "int \<Rightarrow> int" where
  "DaysInYear y =
     (if y mod 4 \<noteq> 0 then 365 else if y mod 100 \<noteq> 0 then 366
      else if y mod 400 \<noteq> 0 then 365 else 366)"

definition DayFromYear :: "int \<Rightarrow> int" where
  "DayFromYear y =
     365 * (y - 1970) + (y - 1969) div 4 - (y - 1901) div 100 + (y - 1601) div 400"

text \<open>
  \<open>YearFromTime t\<close> is the largest year that starts no later than \<open>t\<close>. It is computed
  from the mean length of a year (146097 days in 400 years), which is off by at most
  one year, and then adjusted.
\<close>

definition YearFromTime :: "int \<Rightarrow> int" where
  "YearFromTime t =
     (let d = Day t; y = 1970 + (400 * d) div 146097 in
      if d < DayFromYear y then y - 1
      else if DayFromYear (y + 1) \<le> d then y + 1
      else y)"

definition DayWithinYear :: "int \<Rightarrow> int" where
  "DayWithinYear t = Day t - DayFromYear (YearFromTime t)"

definition InLeapYear :: "int \<Rightarrow> int" where
  "InLeapYear t = (if DaysInYear (YearFromTime t) = 366 then 1 else 0)"

definition month_starts :: "int \<Rightarrow> int list" where
  \<comment> \<open>the day within the year on which each month begins, then the length of the year\<close>
  "month_starts leap =
     [0, 31, 59 + leap, 90 + leap, 120 + leap, 151 + leap, 181 + leap, 212 + leap,
      243 + leap, 273 + leap, 304 + leap, 334 + leap, 365 + leap]"

definition MonthFromTime :: "int \<Rightarrow> int" where
  "MonthFromTime t =
     (let d = DayWithinYear t; leap = InLeapYear t in
      if d < 31 then 0 else if d < 59 + leap then 1 else if d < 90 + leap then 2
      else if d < 120 + leap then 3 else if d < 151 + leap then 4
      else if d < 181 + leap then 5 else if d < 212 + leap then 6
      else if d < 243 + leap then 7 else if d < 273 + leap then 8
      else if d < 304 + leap then 9 else if d < 334 + leap then 10 else 11)"

definition DateFromTime :: "int \<Rightarrow> int" where
  \<comment> \<open>the day within the year, counted from the start of its month, plus one\<close>
  "DateFromTime t =
     DayWithinYear t - month_starts (InLeapYear t) ! nat (MonthFromTime t) + 1"

definition MakeDay :: "int \<Rightarrow> nat \<Rightarrow> int \<Rightarrow> int" where
  "MakeDay y m d =
     DayFromYear y + month_starts (if DaysInYear y = 366 then 1 else 0) ! m + d - 1"

definition MakeTime :: "int \<Rightarrow> int \<Rightarrow> int \<Rightarrow> int \<Rightarrow> int" where
  "MakeTime h m s ms = h * 3600000 + m * 60000 + s * 1000 + ms"

definition MakeDate :: "int \<Rightarrow> int \<Rightarrow> int" where
  "MakeDate day tm = day * msPerDay + tm"

text \<open>
  Parsing. ECMA-262 fixes the time value of a string in its date-time format; for any
  other string the host may apply its own rules. \<open>iso_parse\<close> reads the strings of the
  format whose value does not depend on the host's time zone: \<^verbatim>\<open>YYYY-MM-DD\<close> alone (UTC
  midnight), or followed by \<^verbatim>\<open>T\<close>, \<^verbatim>\<open>HH:mm\<close>, optional \<^verbatim>\<open>:ss\<close> and \<^verbatim>\<open>.sss\<close>, and \<^verbatim>\<open>Z\<close> or an
  offset \<^verbatim>\<open>+HH:mm\<close> / \<^verbatim>\<open>-HH:mm\<close>. Every other string is left to the host, which is a
  parameter of the model.
\<close>

definition number2 :: "char \<Rightarrow> char \<Rightarrow> nat option" where
  "number2 a b =
     (if is_digit a \<and> is_digit b then Some (10 * digit_value a + digit_value b) else None)"

fun iso_date :: "string \<Rightarrow> (int \<times> string) option" where
  "iso_date (y1 # y2 # y3 # y4 # s1 # m1 # m2 # s2 # d1 # d2 # rest) =
     (case (number2 y1 y2, number2 y3 y4, number2 m1 m2, number2 d1 d2) of
        (Some yh, Some yl, Some m, Some d) \<Rightarrow>
          (let y = int (100 * yh + yl);
               starts = month_starts (if DaysInYear y = 366 then 1 else 0) in
           if s1 = CHR ''-'' \<and> s2 = CHR ''-'' \<and> 1 \<le> m \<and> m \<le> 12 \<and> 1 \<le> d
              \<and> int d \<le> starts ! m - starts ! (m - 1)
           then Some (MakeDay y (m - 1) (int d), rest) else None)
      | _ \<Rightarrow> None)"
| "iso_date _ = None"

fun iso_seconds :: "string \<Rightarrow> (nat \<times> nat \<times> string) option" where
  "iso_seconds (c # s1 # s2 # rest) =
     (if c = CHR '':'' then
        (case number2 s1 s2 of
           Some s \<Rightarrow>
             (if 59 < s then None else
                (case rest of
                   p # f1 # f2 # f3 # rest' \<Rightarrow>
                     (if p = CHR ''.'' then
                        (case (number2 (CHR ''0'') f1, number2 f2 f3) of
                           (Some a, Some b) \<Rightarrow> Some (s, 100 * a + b, rest')
                         | _ \<Rightarrow> None)
                      else Some (s, 0, rest))
                 | _ \<Rightarrow> Some (s, 0, rest)))
         | None \<Rightarrow> None)
      else Some (0, 0, c # s1 # s2 # rest))"
| "iso_seconds rest = Some (0, 0, rest)"

fun iso_offset :: "string \<Rightarrow> int option" where
  "iso_offset [z] = (if z = CHR ''Z'' then Some 0 else None)"
| "iso_offset [sg, h1, h2, c, m1, m2] =
     (case (number2 h1 h2, number2 m1 m2) of
        (Some h, Some m) \<Rightarrow>
          (if c = CHR '':'' \<and> h \<le> 23 \<and> m \<le> 59 then
             (if sg = CHR ''+'' then Some (MakeTime (int h) (int m) 0 0)
              else if sg = CHR ''-'' then Some (- MakeTime (int h) (int m) 0 0)
              else None)
           else None)
      | _ \<Rightarrow> None)"
| "iso_offset _ = None"

fun iso_time :: "string \<Rightarrow> int option" where
  "iso_time (h1 # h2 # c # m1 # m2 # rest) =
     (case (number2 h1 h2, number2 m1 m2) of
        (Some h, Some m) \<Rightarrow>
          (if c = CHR '':'' \<and> h \<le> 23 \<and> m \<le> 59 then
             (case iso_seconds rest of
                Some (s, ms, rest') \<Rightarrow>
                  (case iso_offset rest' of
                     Some off \<Rightarrow> Some (MakeTime (int h) (int m) (int s) (int ms) - off)
                   | None \<Rightarrow> None)
              | None \<Rightarrow> None)
           else None)
      | _ \<Rightarrow> None)"
| "iso_time _ = None"

definition iso_parse :: "string \<Rightarrow> int option" where
  "iso_parse s =
     (case iso_date s of
        None \<Rightarrow> None
      | Some (day, rest) \<Rightarrow>
          (case rest of
             [] \<Rightarrow> Some (MakeDate day 0)
           | c # rest' \<Rightarrow>
               (if c = CHR ''T'' then
                  (case iso_time rest' of
                     Some tm \<Rightarrow> Some (MakeDate day tm)
                   | None \<Rightarrow> None)
                else None)))"

type_synonym host_parser = "string \<Rightarrow> int option"

definition Date_parse :: "host_parser \<Rightarrow> string \<Rightarrow> int option" where
  \<comment> \<open>the time value of \<^verbatim>\<open>new Date(s)\<close>\<close>
  "Date_parse host s = (case iso_parse s of Some t \<Rightarrow> Some t | None \<Rightarrow> host s)"

definition strict_host :: host_parser where
  \<comment> \<open>a host that accepts nothing beyond the format above\<close>
  "strict_host s = None"

text \<open>\<^verbatim>\<open>String(n)\<close> for an integer and \<^verbatim>\<open>padStart\<close> with a one-character filler.\<close>

function digits_of :: "nat \<Rightarrow> string" where
  "digits_of n =
     (if n < 10 then [char_of (48 + n)] else digits_of (n div 10) @ [char_of (48 + n mod 10)])"
  by pat_completeness auto
termination
  by (relation "measure id") auto

definition String_of_int :: "int \<Rightarrow> string" where
  "String_of_int i = (if i < 0 then CHR ''-'' # digits_of (nat (- i)) else digits_of (nat i))"

definition padStart :: "nat \<Rightarrow> char \<Rightarrow> string \<Rightarrow> string" where
  "padStart n c s = replicate (n - length s) c @ s"

subsection \<open>normalizeDate\<close>

definition normalizeDate :: "host_parser \<Rightarrow> string \<Rightarrow> error + string" where
  "normalizeDate host dateStr =
     (case Date_parse host dateStr of
        None \<Rightarrow> Inl InvalidDateFormat
      | Some parsed \<Rightarrow>
          (let year = YearFromTime parsed;
               month = padStart 2 (CHR ''0'') (String_of_int (MonthFromTime parsed + 1));
               day = padStart 2 (CHR ''0'') (String_of_int (DateFromTime parsed))
           in Inr (String_of_int year @ ''-'' @ month @ ''-'' @ day)))"

definition utc_date_string :: "int \<Rightarrow> string" where
  \<comment> \<open>what \<open>normalizeDate\<close> returns for a date with time value \<open>t\<close>\<close>
  "utc_date_string t =
     String_of_int (YearFromTime t) @ ''-''
     @ padStart 2 (CHR ''0'') (String_of_int (MonthFromTime t + 1)) @ ''-''
     @ padStart 2 (CHR ''0'') (String_of_int (DateFromTime t))"

text \<open>The canonical date form \<^verbatim>\<open>YYYY-MM-DD\<close>: four digits, two digits, two digits.\<close>

definition canonical_date :: "string \<Rightarrow> bool" where
  "canonical_date s =
     (length s = 10 \<and> list_all is_digit (take 4 s) \<and> s ! 4 = CHR ''-''
      \<and> list_all is_digit (take 2 (drop 5 s)) \<and> s ! 7 = CHR ''-''
      \<and> list_all is_digit (drop 8 s))"

section \<open>Documents\<close>

text \<open>
  Both models extend Mongoose's \<^verbatim>\<open>Document\<close>. Of the document state the hooks read
  \<^verbatim>\<open>isNew\<close> and \<^verbatim>\<open>isModified(path)\<close>; the modified paths are kept as a list.
\<close>

record document =
  isNew :: bool
  modifiedPaths :: "string list"

definition isModified :: "'a document_scheme \<Rightarrow> string \<Rightarrow> bool" where
  "isModified this path = (path \<in> set (modifiedPaths this))"

section \<open>Event model\<close>

text \<open>
  \<^verbatim>\<open>interface Event\<close>. The hook guards nine text fields with \<^verbatim>\<open>?.\<close> and the two arrays
  with \<^verbatim>\<open>Array.isArray\<close>, so these may be absent (\<open>None\<close>); \<^verbatim>\<open>slug\<close> is absent until
  it is first derived. \<^verbatim>\<open>date\<close> and \<^verbatim>\<open>time\<close> are passed on as strings without a
  guard. The field \<^verbatim>\<open>image\<close> is named \<open>image'\<close> here. The timestamps \<^verbatim>\<open>createdAt\<close> and
  \<^verbatim>\<open>updatedAt\<close> are assigned by the store and are not read by the hook. The hook is the
  function \<^verbatim>\<open>preSave\<close> of \<^verbatim>\<open>event.model.ts\<close>; it returns the record that is handed to the
  store, or the error passed to \<^verbatim>\<open>next\<close>. The options of the schema (\<^verbatim>\<open>required\<close>, \<^verbatim>\<open>trim\<close>,
  \<^verbatim>\<open>unique\<close>) act in Mongoose, outside the hook.
\<close>

record event_doc = document +
  title :: "string option"
  slug :: "string option"
  description :: "string option"
  overview :: "string option"
  image' :: "string option"
  venue :: "string option"
  location :: "string option"
  date :: string
  time :: string
  mode :: "string option"
  audience :: "string option"
  agenda :: "string list option"
  organizer :: "string option"
  tags :: "string list option"

definition required :: "error \<Rightarrow> string option \<Rightarrow> error + string" where
  \<comment> \<open>\<^verbatim>\<open>if (!this.f?.trim()) throw new Error(...)\<close>\<close>
  "required e v =
     (case v of None \<Rightarrow> Inl e | Some s \<Rightarrow> if trim s = [] then Inl e else Inr s)"

definition required_array :: "error \<Rightarrow> string list option \<Rightarrow> error + string list" where
  \<comment> \<open>\<^verbatim>\<open>if (!Array.isArray(this.f) || this.f.length === 0) throw new Error(...)\<close>\<close>
  "required_array e v =
     (case v of None \<Rightarrow> Inl e | Some xs \<Rightarrow> if length xs = 0 then Inl e else Inr xs)"

text \<open>
  \<^verbatim>\<open>xs.map(item => { const trimmed = item.trim(); if (!trimmed) throw ...; return f(trimmed) })\<close>:
  the callback runs on the elements in order and the first throw ends the map.
\<close>

fun map_trimmed :: "error \<Rightarrow> (string \<Rightarrow> string) \<Rightarrow> string list \<Rightarrow> error + string list" where
  "map_trimmed e f [] = Inr []"
| "map_trimmed e f (item # items) =
     (let trimmed = trim item in
      if trimmed = [] then Inl e
      else and_then (map_trimmed e f items) (\<lambda>rest. Inr (f trimmed # rest)))"

definition event_preSave :: "host_parser \<Rightarrow> event_doc \<Rightarrow> error + event_doc" where
  "event_preSave host this =
     and_then (required TitleRequired (title this)) (\<lambda>the_title.
     and_then (required DescriptionRequired (description this)) (\<lambda>_.
     and_then (required OverviewRequired (overview this)) (\<lambda>_.
     and_then (required ImageRequired (image' this)) (\<lambda>_.
     and_then (required VenueRequired (venue this)) (\<lambda>_.
     and_then (required LocationRequired (location this)) (\<lambda>_.
     and_then (required ModeRequired (mode this)) (\<lambda>_.
     and_then (required AudienceRequired (audience this)) (\<lambda>_.
     and_then (required OrganizerRequired (organizer this)) (\<lambda>_.
     and_then (required_array AgendaRequired (agenda this)) (\<lambda>the_agenda.
     and_then (required_array TagsRequired (tags this)) (\<lambda>the_tags.
     and_then (map_trimmed AgendaItemEmpty (\<lambda>trimmed. trimmed) the_agenda) (\<lambda>agenda1.
     and_then (map_trimmed TagEmpty toLowerCase the_tags) (\<lambda>tags1.
     and_then (normalizeDate host (date this)) (\<lambda>date1.
     and_then (normalizeTime (time this)) (\<lambda>time1.
       Inr (this\<lparr> agenda := Some agenda1, tags := Some tags1, date := date1, time := time1,
                  slug := (if isNew this \<or> isModified this ''title''
                           then Some (slugifyTitle the_title) else slug this) \<rparr>)
     )))))))))))))))"

subsection \<open>The order of the checks\<close>

text \<open>
  A step either fails with an error or lets the record pass; a pipeline of steps reports
  the failure of its earliest failing step.
\<close>

fun first_failure :: "error option list \<Rightarrow> error option" where
  "first_failure [] = None"
| "first_failure (None # steps) = first_failure steps"
| "first_failure (Some e # steps) = Some e"

definition blank :: "string option \<Rightarrow> bool" where
  \<comment> \<open>absent, or empty after trimming\<close>
  "blank v = (case v of None \<Rightarrow> True | Some s \<Rightarrow> trim s = [])"

definition check :: "error \<Rightarrow> bool \<Rightarrow> error option" where
  "check e failed = (if failed then Some e else None)"

definition failure_of :: "error + 'a \<Rightarrow> error option" where
  "failure_of r = (case r of Inl e \<Rightarrow> Some e | Inr _ \<Rightarrow> None)"

definition items :: "string list option \<Rightarrow> string list" where
  "items v = (case v of None \<Rightarrow> [] | Some xs \<Rightarrow> xs)"

definition presence_step :: "event_doc \<Rightarrow> error option" where
  "presence_step d =
     first_failure
       [check TitleRequired (blank (title d)), check DescriptionRequired (blank (description d)),
        check OverviewRequired (blank (overview d)), check ImageRequired (blank (image' d)),
        check VenueRequired (blank (venue d)), check LocationRequired (blank (location d)),
        check ModeRequired (blank (mode d)), check AudienceRequired (blank (audience d)),
        check OrganizerRequired (blank (organizer d))]"

definition agenda_present :: "event_doc \<Rightarrow> error option" where
  "agenda_present d = check AgendaRequired (items (agenda d) = [])"

definition agenda_items :: "event_doc \<Rightarrow> error option" where
  "agenda_items d = check AgendaItemEmpty (list_ex (\<lambda>x. trim x = []) (items (agenda d)))"

definition tags_present :: "event_doc \<Rightarrow> error option" where
  "tags_present d = check TagsRequired (items (tags d) = [])"

definition tags_items :: "event_doc \<Rightarrow> error option" where
  "tags_items d = check TagEmpty (list_ex (\<lambda>x. trim x = []) (items (tags d)))"

definition date_step :: "host_parser \<Rightarrow> event_doc \<Rightarrow> error option" where
  "date_step host d = failure_of (normalizeDate host (date d))"

definition time_step :: "event_doc \<Rightarrow> error option" where
  "time_step d = failure_of (normalizeTime (time d))"

definition spec_steps :: "host_parser \<Rightarrow> event_doc \<Rightarrow> error option list" where
  \<comment> \<open>the five steps in the order of the specification\<close>
  "spec_steps host d =
     [presence_step d,
      first_failure [agenda_present d, agenda_items d],
      first_failure [tags_present d, tags_items d],
      date_step host d,
      time_step d]"

definition hook_steps :: "host_parser \<Rightarrow> event_doc \<Rightarrow> error option list" where
  \<comment> \<open>the order of the hook: both arrays are checked for presence before any element\<close>
  "hook_steps host d =
     [presence_step d, agenda_present d, tags_present d, agenda_items d, tags_items d,
      date_step host d, time_step d]"

subsection \<open>The invariants of an accepted record\<close>

definition nonblank_list :: "string list option \<Rightarrow> bool" where
  "nonblank_list v = (items v \<noteq> [] \<and> list_all (\<lambda>x. trim x \<noteq> []) (items v))"

definition lower_case :: "string \<Rightarrow> bool" where
  "lower_case s = (toLowerCase s = s)"

definition text_fields_present :: "event_doc \<Rightarrow> bool" where
  "text_fields_present d =
     (\<not> blank (title d) \<and> \<not> blank (description d) \<and> \<not> blank (overview d)
      \<and> \<not> blank (image' d) \<and> \<not> blank (venue d) \<and> \<not> blank (location d)
      \<and> \<not> blank (mode d) \<and> \<not> blank (audience d) \<and> \<not> blank (organizer d))"

definition lists_clean :: "event_doc \<Rightarrow> bool" where
  "lists_clean d =
     (nonblank_list (agenda d) \<and> nonblank_list (tags d) \<and> list_all lower_case (items (tags d)))"

definition accepted_invariant :: "event_doc \<Rightarrow> bool" where
  "accepted_invariant d =
     (text_fields_present d \<and> lists_clean d \<and> canonical_date (date d)
      \<and> well_formed_HHMM (time d))"

subsection \<open>Sample records\<close>

definition sample_event :: event_doc where
  "sample_event =
     \<lparr> isNew = True, modifiedPaths = [],
       title = Some ''Hello, World!! 2024'', slug = None,
       description = Some ''A meetup'', overview = Some ''Talks'',
       image' = Some ''https://example.com/a.png'', venue = Some ''Hall 1'',
       location = Some ''Tashkent'', date = ''2024-03-01T23:00:00-05:00'', time = '' 09:05:30 '',
       mode = Some ''offline'', audience = Some ''developers'',
       agenda = Some ['' Intro '', ''Keynote''], organizer = Some ''Dev Event'',
       tags = Some ['' Web '', ''AI''] \<rparr>"

definition stored_event :: event_doc where
  \<comment> \<open>a record loaded from the store, with no path modified\<close>
  "stored_event =
     sample_event \<lparr> isNew := False, slug := Some ''first-title'', date := ''2024-03-02'',
                    time := ''09:05'' \<rparr>"

subsection \<open>Sample saves\<close>

definition saved_slug :: "error + event_doc \<Rightarrow> string option" where
  \<comment> \<open>the slug of the record that a successful save hands to the store\<close>
  "saved_slug r = (case r of Inl e \<Rightarrow> None | Inr d \<Rightarrow> slug d)"

definition edited_event :: event_doc where
  \<comment> \<open>an update of the description and the tags, the title untouched\<close>
  "edited_event =
     stored_event \<lparr> modifiedPaths := [''description'', ''tags''],
                    description := Some ''A larger meetup'', tags := Some [''Cloud''] \<rparr>"

definition retitled_event :: event_doc where
  "retitled_event =
     stored_event \<lparr> modifiedPaths := [''title''], title := Some ''Second Title'' \<rparr>"

definition blank_agenda_no_tags :: event_doc where
  "blank_agenda_no_tags = sample_event \<lparr> agenda := Some [''  '', ''Keynote''], tags := Some [] \<rparr>"

definition year_999_event :: event_doc where
  "year_999_event = sample_event \<lparr> date := ''0999-06-01'' \<rparr>"

section \<open>Booking model\<close>

definition not_space_at :: "char \<Rightarrow> bool" where
  \<comment> \<open>the negated class \<^verbatim>\<open>[^\s@]\<close>\<close>
  "not_space_at c = (\<not> (is_space c \<or> c = CHR ''@''))"

definition email_re :: regex where
  \<comment> \<open>\<^verbatim>\<open>/^[^\s@]+@[^\s@]+\.[^\s@]+$/\<close>\<close>
  "email_re =
     Cat (Plus (Cls not_space_at))
    (Cat (lit (CHR ''@''))
    (Cat (Plus (Cls not_space_at))
    (Cat (lit (CHR ''.''))
         (Plus (Cls not_space_at)))))"

definition isValidEmail :: "string \<Rightarrow> bool" where
  "isValidEmail email = (let trimmed = trim email in regex_test email_re trimmed)"

type_synonym objectId = nat

record booking_doc = document +
  eventId :: objectId
  email :: "string option"

text \<open>
  The record store is the external collaborator. \<^verbatim>\<open>Event.exists({ _id })\<close> answers that
  an event is there, that none is, or the call is rejected. The hook returns its outcome
  together with the list of the lookups it made.
\<close>

datatype store_reply = Present | Absent | Rejected

type_synonym event_store = "objectId \<Rightarrow> store_reply"

definition booking_preSave ::
  "event_store \<Rightarrow> booking_doc \<Rightarrow> (error + booking_doc) \<times> objectId list" where
  "booking_preSave store this =
     (case required EmailRequired (email this) of
        Inl e \<Rightarrow> (Inl e, [])
      | Inr the_email \<Rightarrow>
          if \<not> isValidEmail the_email then (Inl InvalidEmailFormat, [])
          else if isNew this \<or> isModified this ''eventId'' then
            (case store (eventId this) of
               Rejected \<Rightarrow> (Inl StoreFailure, [eventId this])
             | Absent \<Rightarrow> (Inl EventNotFound, [eventId this])
             | Present \<Rightarrow> (Inr this, [eventId this]))
          else (Inr this, []))"

definition email_accepted :: "booking_doc \<Rightarrow> bool" where
  \<comment> \<open>the email passes the presence check and the format check\<close>
  "email_accepted b = (case email b of None \<Rightarrow> False | Some e \<Rightarrow> trim e \<noteq> [] \<and> isValidEmail e)"

definition sample_booking :: booking_doc where
  "sample_booking =
     \<lparr> isNew = True, modifiedPaths = [], eventId = 7, email = Some ''user@example.com'' \<rparr>"

definition empty_store :: event_store where
  \<comment> \<open>a store from which every event has been deleted\<close>
  "empty_store i = Absent"

definition full_store :: event_store where
  "full_store i = Present"

section \<open>Properties of the string operations\<close>

lemma replace_class_empty: "replace_class C [] s = filter (\<lambda>c. \<not> C c) s"
  by (induction s) auto

lemma collapse_runs_in_run:
  "collapse_runs C True s = replace_class_plus C ''-'' (dropWhile C s)"
  and collapse_runs_fresh:
  "collapse_runs C False s = replace_class_plus C ''-'' s"
  by (induction s) auto

lemma set_replace_class_plus:
  "set (replace_class_plus C rep s) \<subseteq> set rep \<union> {c \<in> set s. \<not> C c}"
proof (induction C rep s rule: replace_class_plus.induct)
  case (1 C rep)
  then show ?case by simp
next
  case (2 C rep c cs)
  have "set (dropWhile C cs) \<subseteq> set cs"
    by (simp add: set_dropWhileD subsetI)
  with 2 show ?case by (auto split: if_splits)
qed

lemma replace_class_plus_id:
  "\<not> list_ex C s \<Longrightarrow> replace_class_plus C rep s = s"
  by (induction s) auto

subsection \<open>Character classes\<close>

lemma char_eq_code: "c = d \<longleftrightarrow> (of_char c :: nat) = of_char d"
  by simp

lemma slug_char_not_space: "slug_char c \<Longrightarrow> \<not> is_space c"
  by (auto simp: slug_char_def is_space_def in_range_def)

lemma slug_char_lower: "slug_char c \<Longrightarrow> lower_char c = c"
  by (auto simp: slug_char_def lower_char_def in_range_def)

lemma slug_char_safe: "slug_char c \<Longrightarrow> \<not> slug_unsafe c"
  by (auto simp: slug_char_def slug_unsafe_def)

lemma slug_keeps_iff: "slug_keeps c \<longleftrightarrow> \<not> slug_unsafe c"
  by (simp add: slug_keeps_def slug_unsafe_def is_digit_def is_hyphen_def)

lemma safe_or_space: "\<not> slug_unsafe c \<Longrightarrow> \<not> is_space c \<Longrightarrow> slug_char c"
  by (auto simp: slug_char_def slug_unsafe_def)

lemma hyphen_slug_char: "slug_char (CHR ''-'')"
  by (simp add: slug_char_def)

subsection \<open>Trimming\<close>

lemma trim_no_space: "\<not> list_ex is_space s \<Longrightarrow> trim s = s"
proof -
  assume a: "\<not> list_ex is_space s"
  have d: "dropWhile is_space t = t" if "\<not> list_ex is_space t" for t
    using that by (cases t) auto
  have "\<not> list_ex is_space (rev s)" using a by (simp add: list_ex_iff)
  then show ?thesis using a by (simp add: trim_def d)
qed

subsection \<open>Slugs\<close>

lemma no_hyphen_run_Cons: "a \<noteq> CHR ''-'' \<Longrightarrow> no_hyphen_run (a # xs) = no_hyphen_run xs"
  by (cases xs) auto

lemma replace_class_plus_hd:
  "\<not> C x \<Longrightarrow> replace_class_plus C rep (x # xs) = x # replace_class_plus C rep xs"
  by simp

lemma no_hyphen_run_collapse: "no_hyphen_run (replace_class_plus is_hyphen ''-'' s)"
proof (induction is_hyphen "''-''" s rule: replace_class_plus.induct)
  case 1
  show ?case by simp
next
  case (2 c cs)
  show ?case
  proof (cases "is_hyphen c")
    case False
    with 2 show ?thesis by (simp add: no_hyphen_run_Cons is_hyphen_def)
  next
    case True
    note IH = 2(1)[OF True]
    show ?thesis
    proof (cases "dropWhile is_hyphen cs")
      case Nil
      then have "replace_class_plus is_hyphen ''-'' (c # cs) = ''-''"
        using True by (simp del: dropWhile_eq_Nil_conv)
      then show ?thesis by simp
    next
      case (Cons x xs)
      have "\<not> is_hyphen (hd (dropWhile is_hyphen cs))"
        by (rule hd_dropWhile) (simp add: Cons del: dropWhile_eq_Nil_conv)
      then have x: "\<not> is_hyphen x" by (simp add: Cons)
      have "replace_class_plus is_hyphen ''-'' (c # cs)
            = CHR ''-'' # replace_class_plus is_hyphen ''-'' (x # xs)"
        using True by (simp add: Cons)
      moreover have "no_hyphen_run (replace_class_plus is_hyphen ''-'' (x # xs))"
        using IH by (simp add: Cons)
      ultimately show ?thesis using x by (simp add: is_hyphen_def)
    qed
  qed
qed

lemma collapse_fixpoint:
  "no_hyphen_run s \<Longrightarrow> replace_class_plus is_hyphen ''-'' s = s"
  by (induction s rule: no_hyphen_run.induct) (auto simp: is_hyphen_def)

lemma slug_chars: "list_all slug_char (slugifyTitle t)"
proof -
  let ?a = "replace_class slug_unsafe [] (trim (toLowerCase t))"
  let ?b = "replace_class_plus is_space ''-'' ?a"
  have a: "\<forall>c \<in> set ?a. \<not> slug_unsafe c"
    by (simp add: replace_class_empty)
  have "\<forall>c \<in> set ?b. slug_char c"
  proof
    fix c assume "c \<in> set ?b"
    then have "c \<in> set ''-'' \<union> {c \<in> set ?a. \<not> is_space c}"
      using set_replace_class_plus by blast
    then show "slug_char c" using a by (auto simp: hyphen_slug_char safe_or_space)
  qed
  moreover have "set (slugifyTitle t) \<subseteq> set ''-'' \<union> {c \<in> set ?b. \<not> is_hyphen c}"
    unfolding slugifyTitle_def by (rule set_replace_class_plus)
  ultimately show ?thesis by (auto simp: list_all_iff hyphen_slug_char)
qed

lemma slug_no_hyphen_run: "no_hyphen_run (slugifyTitle t)"
  unfolding slugifyTitle_def by (rule no_hyphen_run_collapse)

lemma slug_fixpoint:
  assumes "list_all slug_char s" and "no_hyphen_run s"
  shows "slugifyTitle s = s"
proof -
  have l: "toLowerCase s = s"
    using assms(1) by (simp add: toLowerCase_def list_all_iff slug_char_lower map_idI)
  have ns: "\<not> list_ex is_space s"
    using assms(1) by (auto simp: list_all_iff list_ex_iff slug_char_not_space)
  have f: "replace_class slug_unsafe [] s = s"
    using assms(1) by (simp add: replace_class_empty list_all_iff slug_char_safe)
  show ?thesis
    unfolding slugifyTitle_def l trim_no_space[OF ns] f replace_class_plus_id[OF ns]
    by (rule collapse_fixpoint[OF assms(2)])
qed

lemma slugify_spec_eq: "slugifyTitle t = slugify_spec t"
proof -
  have "slug_keeps = (\<lambda>c. \<not> slug_unsafe c)"
    by (rule ext) (simp add: slug_keeps_iff)
  then have "filter slug_keeps s = replace_class slug_unsafe [] s" for s
    by (simp add: replace_class_empty)
  then show ?thesis
    by (simp add: slugifyTitle_def slugify_spec_def collapse_runs_fresh)
qed

subsection \<open>The matcher\<close>

lemmas rests_Plus = rests.simps(5)

declare rests.simps(5) [simp del]

lemma rests_Cls: "t \<in> set (rests (Cls C) s) \<longleftrightarrow> (\<exists>c. s = c # t \<and> C c)"
  by (cases s) auto

lemma rests_Cat:
  "t \<in> set (rests (Cat a b) s) \<longleftrightarrow> (\<exists>u. u \<in> set (rests a s) \<and> t \<in> set (rests b u))"
  by auto

lemma rests_Alt:
  "t \<in> set (rests (Alt a b) s) \<longleftrightarrow> t \<in> set (rests a s) \<or> t \<in> set (rests b s)"
  by simp

lemma rests_Opt: "t \<in> set (rests (Opt a) s) \<longleftrightarrow> t \<in> set (rests a s) \<or> t = s"
  by auto

lemma rests_Plus_Cls_Nil: "rests (Plus (Cls C)) [] = []"
  by (simp add: rests_Plus)

lemma rests_Plus_Cls_Cons:
  "rests (Plus (Cls C)) (c # cs) = (if C c then rests (Plus (Cls C)) cs @ [cs] else [])"
  by (simp add: rests_Plus)

text \<open>A class under \<^verbatim>\<open>+\<close> matches exactly the non-empty prefixes made of the class.\<close>

lemma rests_Plus_Cls:
  "t \<in> set (rests (Plus (Cls C)) s) \<longleftrightarrow> (\<exists>w. w \<noteq> [] \<and> s = w @ t \<and> list_all C w)"
proof (induction s)
  case Nil
  show ?case by (simp add: rests_Plus_Cls_Nil)
next
  case (Cons c cs)
  show ?case
  proof (cases "C c")
    case False
    have "\<not> (\<exists>w. w \<noteq> [] \<and> c # cs = w @ t \<and> list_all C w)"
      using False by (auto simp: Cons_eq_append_conv)
    then show ?thesis using False by (simp add: rests_Plus_Cls_Cons)
  next
    case True
    have "(\<exists>w. w \<noteq> [] \<and> c # cs = w @ t \<and> list_all C w)
            \<longleftrightarrow> t = cs \<or> (\<exists>w. w \<noteq> [] \<and> cs = w @ t \<and> list_all C w)"
      (is "?L \<longleftrightarrow> ?R")
    proof
      assume ?L
      then obtain w where w: "w \<noteq> []" "c # cs = w @ t" "list_all C w" by blast
      then obtain v where v: "w = c # v" "cs = v @ t" by (cases w) auto
      show ?R
      proof (cases "v = []")
        case True
        with v show ?thesis by simp
      next
        case False
        with v w show ?thesis by auto
      qed
    next
      assume ?R
      then show ?L
      proof
        assume "t = cs"
        then have "[c] \<noteq> [] \<and> c # cs = [c] @ t \<and> list_all C [c]" using True by simp
        then show ?L by blast
      next
        assume "\<exists>w. w \<noteq> [] \<and> cs = w @ t \<and> list_all C w"
        then obtain w where "w \<noteq> []" "cs = w @ t" "list_all C w" by blast
        then have "c # w \<noteq> [] \<and> c # cs = (c # w) @ t \<and> list_all C (c # w)"
          using True by simp
        then show ?L by blast
      qed
    qed
    moreover have "t \<in> set (rests (Plus (Cls C)) (c # cs))
        \<longleftrightarrow> t = cs \<or> t \<in> set (rests (Plus (Cls C)) cs)"
      using True by (auto simp: rests_Plus_Cls_Cons)
    ultimately show ?thesis using Cons.IH by simp
  qed
qed

subsection \<open>The time pattern\<close>

lemma time_re_shape:
  "regex_test time_re s \<longleftrightarrow>
     (\<exists>h1 h2 m1 m2 r. s = h1 # h2 # CHR '':'' # m1 # m2 # r
        \<and> ((one_of ''01'' h1 \<and> is_digit h2) \<or> (h1 = CHR ''2'' \<and> in_range (CHR ''0'') (CHR ''3'') h2))
        \<and> (in_range (CHR ''0'') (CHR ''5'') m1 \<and> is_digit m2)
        \<and> (r = [] \<or> (\<exists>s1 s2. r = [CHR '':'', s1, s2]
               \<and> (in_range (CHR ''0'') (CHR ''5'') s1 \<and> is_digit s2))))"
  unfolding regex_test_def time_re_def lit_def
  apply (simp only: rests_Cat rests_Alt rests_Opt rests_Cls)
  apply (rule iffI)
   apply (elim exE conjE disjE; simp; blast?)
  apply (elim exE conjE disjE; auto)
  done

lemma hour_class:
  "(one_of ''01'' h1 \<and> is_digit h2) \<or> (h1 = CHR ''2'' \<and> in_range (CHR ''0'') (CHR ''3'') h2)
     \<longleftrightarrow> is_digit h1 \<and> is_digit h2 \<and> two_digits h1 h2 \<le> 23"
  unfolding one_of_def is_digit_def in_range_def two_digits_def digit_value_def
  by (simp add: char_eq_code) arith

lemma minute_class:
  "in_range (CHR ''0'') (CHR ''5'') m1 \<and> is_digit m2
     \<longleftrightarrow> is_digit m1 \<and> is_digit m2 \<and> two_digits m1 m2 \<le> 59"
  unfolding is_digit_def in_range_def two_digits_def digit_value_def
  by simp arith

lemma length_ge_5:
  "5 \<le> length s \<longleftrightarrow> (\<exists>a b c d e r. s = a # b # c # d # e # r)"
  by (auto simp: Suc_le_length_iff eval_nat_numeral)

lemma length_eq_3: "length r = 3 \<longleftrightarrow> (\<exists>a b c. r = [a, b, c])"
  by (auto simp: length_Suc_conv eval_nat_numeral)

lemma well_formed_time_shape:
  "well_formed_time s \<longleftrightarrow>
     (\<exists>h1 h2 m1 m2 r. s = h1 # h2 # CHR '':'' # m1 # m2 # r
        \<and> (is_digit h1 \<and> is_digit h2 \<and> two_digits h1 h2 \<le> 23)
        \<and> (is_digit m1 \<and> is_digit m2 \<and> two_digits m1 m2 \<le> 59)
        \<and> (r = [] \<or> (\<exists>s1 s2. r = [CHR '':'', s1, s2]
               \<and> (is_digit s1 \<and> is_digit s2 \<and> two_digits s1 s2 \<le> 59))))"
  (is "?L \<longleftrightarrow> ?R")
proof
  assume ?L
  then have "5 \<le> length s"
    by (simp add: well_formed_time_def well_formed_HHMM_def min_def split: if_splits)
  then obtain a b c d e r where s: "s = a # b # c # d # e # r"
    unfolding length_ge_5 by blast
  from \<open>?L\<close> have r: "r = [] \<or> well_formed_SS r" and hm: "well_formed_HHMM [a, b, c, d, e]"
    by (simp_all add: well_formed_time_def s)
  from r have "r = [] \<or> (\<exists>s1 s2. r = [CHR '':'', s1, s2]
               \<and> (is_digit s1 \<and> is_digit s2 \<and> two_digits s1 s2 \<le> 59))"
    unfolding well_formed_SS_def length_eq_3 by auto
  with hm show ?R unfolding s well_formed_HHMM_def by simp
next
  assume ?R
  then show ?L
    by (auto simp: well_formed_time_def well_formed_HHMM_def well_formed_SS_def)
qed

lemma time_re_well_formed: "regex_test time_re s \<longleftrightarrow> well_formed_time s"
  by (simp only: time_re_shape well_formed_time_shape hour_class minute_class)

lemma normalizeTime_spec:
  "normalizeTime t =
     (if well_formed_time (trim t) then Inr (take 5 (trim t)) else Inl InvalidTimeFormat)"
proof (cases "well_formed_time (trim t)")
  case False
  then show ?thesis by (simp add: normalizeTime_def time_re_well_formed)
next
  case True
  then obtain h1 h2 m1 m2 r where "trim t = h1 # h2 # CHR '':'' # m1 # m2 # r"
    unfolding well_formed_time_shape by blast
  with True show ?thesis by (simp add: normalizeTime_def time_re_well_formed)
qed

lemma well_formed_HHMM_time: "well_formed_HHMM s \<Longrightarrow> well_formed_time s"
  by (simp add: well_formed_time_def well_formed_HHMM_def)

lemma HHMM_no_space: "well_formed_HHMM s \<Longrightarrow> \<not> list_ex is_space s"
proof -
  assume a: "well_formed_HHMM s"
  then have "5 \<le> length s" by (simp add: well_formed_HHMM_def)
  then obtain h1 h2 c m1 m2 r where s: "s = h1 # h2 # c # m1 # m2 # r"
    unfolding length_ge_5 by blast
  with a have "r = []" by (simp add: well_formed_HHMM_def)
  with a s show ?thesis
    by (auto simp: well_formed_HHMM_def is_digit_def in_range_def is_space_def)
qed

lemma normalizeTime_fixpoint: "well_formed_HHMM s \<Longrightarrow> normalizeTime s = Inr s"
  by (simp add: normalizeTime_spec trim_no_space HHMM_no_space well_formed_HHMM_time
      well_formed_HHMM_def)

lemma normalizeTime_canonical:
  "normalizeTime t = Inr out \<Longrightarrow> well_formed_HHMM out"
  by (auto simp: normalizeTime_spec well_formed_time_def split: if_splits)

subsection \<open>The email pattern\<close>

lemma email_re_shape:
  "regex_test email_re s \<longleftrightarrow>
     (\<exists>l d t. s = l @ CHR ''@'' # d @ CHR ''.'' # t
        \<and> l \<noteq> [] \<and> d \<noteq> [] \<and> t \<noteq> []
        \<and> list_all not_space_at l \<and> list_all not_space_at d \<and> list_all not_space_at t)"
  unfolding regex_test_def email_re_def lit_def
  apply (simp only: rests_Cat rests_Plus_Cls rests_Cls)
  apply (rule iffI)
   apply (elim exE conjE; simp; blast?)
  apply (elim exE conjE; auto)
  done

lemma count_not_space_at: "list_all not_space_at w \<Longrightarrow> count_list w (CHR ''@'') = 0"
  by (induction w) (auto simp: not_space_at_def)

lemma no_space_not_space_at: "list_all not_space_at w \<Longrightarrow> \<not> list_ex is_space w"
  by (induction w) (auto simp: not_space_at_def)

lemma at_not_space: "\<not> is_space (CHR ''@'')" "\<not> is_space (CHR ''.'')"
  by (simp_all add: is_space_def)

subsection \<open>Sequencing\<close>

lemma and_then_Inr: "and_then r k = Inr y \<longleftrightarrow> (\<exists>x. r = Inr x \<and> k x = Inr y)"
  by (cases r) (simp_all add: and_then_def)

lemma failure_and_then:
  "failure_of (and_then r k) = (case r of Inl e \<Rightarrow> Some e | Inr x \<Rightarrow> failure_of (k x))"
  by (cases r) (simp_all add: and_then_def failure_of_def)

lemma required_Inr: "required e v = Inr s \<longleftrightarrow> v = Some s \<and> trim s \<noteq> []"
  by (auto simp: required_def split: option.splits)

lemma required_blank:
  "required e v = (if blank v then Inl e else Inr (case v of Some s \<Rightarrow> s | None \<Rightarrow> []))"
  by (simp add: required_def blank_def split: option.splits)

lemma required_array_Inr: "required_array e v = Inr xs \<longleftrightarrow> v = Some xs \<and> xs \<noteq> []"
  by (auto simp: required_array_def split: option.splits)

lemma required_array_items:
  "required_array e v = (if items v = [] then Inl e else Inr (items v))"
  by (simp add: required_array_def items_def split: option.splits)

lemma map_trimmed_Inr:
  "map_trimmed e f xs = Inr ys \<longleftrightarrow>
     list_all (\<lambda>x. trim x \<noteq> []) xs \<and> ys = map (\<lambda>x. f (trim x)) xs"
  by (induction xs arbitrary: ys) (auto simp: Let_def and_then_Inr)

lemma map_trimmed_cases:
  "map_trimmed e f xs =
     (if list_ex (\<lambda>x. trim x = []) xs then Inl e else Inr (map (\<lambda>x. f (trim x)) xs))"
  by (induction xs) (auto simp: Let_def and_then_def)

lemma map_trimmed_failure:
  "failure_of (map_trimmed e f xs) = check e (list_ex (\<lambda>x. trim x = []) xs)"
  by (simp add: map_trimmed_cases failure_of_def check_def)

lemma failure_step:
  "failure_of (and_then (if b then Inl e else Inr x) k) = (if b then Some e else failure_of (k x))"
  by (simp add: failure_and_then)

lemma first_failure_check:
  "first_failure (check e b # steps) = (if b then Some e else first_failure steps)"
  by (simp add: check_def)

lemma first_failure_nested:
  "first_failure (first_failure xs # ys) = first_failure (xs @ ys)"
  by (induction xs rule: first_failure.induct) simp_all

subsection \<open>The event hook\<close>

lemma event_preSave_failure:
  "failure_of (event_preSave host d) = first_failure (hook_steps host d)"
  unfolding event_preSave_def hook_steps_def presence_step_def agenda_present_def
    tags_present_def agenda_items_def tags_items_def date_step_def time_step_def
    required_blank required_array_items map_trimmed_cases
    failure_step first_failure_nested append.simps first_failure_check
  by (cases "normalizeDate host (date d)"; cases "normalizeTime (time d)";
      simp add: and_then_def failure_of_def first_failure_check)

lemma event_preSave_Inr:
  "event_preSave host d = Inr d' \<longleftrightarrow>
     (\<exists>t ag tg dt tm.
        title d = Some t \<and> text_fields_present d
        \<and> agenda d = Some ag \<and> ag \<noteq> [] \<and> tags d = Some tg \<and> tg \<noteq> []
        \<and> list_all (\<lambda>x. trim x \<noteq> []) ag \<and> list_all (\<lambda>x. trim x \<noteq> []) tg
        \<and> normalizeDate host (date d) = Inr dt \<and> normalizeTime (time d) = Inr tm
        \<and> d' = d\<lparr> agenda := Some (map trim ag), tags := Some (map (\<lambda>x. toLowerCase (trim x)) tg),
                   date := dt, time := tm,
                   slug := (if isNew d \<or> isModified d ''title''
                            then Some (slugifyTitle t) else slug d) \<rparr>)"
  (is "?L \<longleftrightarrow> ?R")
proof
  assume ?L
  then obtain t x2 x3 x4 x5 x6 x7 x8 x9 ag tg ag1 tg1 dt tm where
    f: "title d = Some t" "trim t \<noteq> []"
       "description d = Some x2" "trim x2 \<noteq> []"
       "overview d = Some x3" "trim x3 \<noteq> []"
       "image' d = Some x4" "trim x4 \<noteq> []"
       "venue d = Some x5" "trim x5 \<noteq> []"
       "location d = Some x6" "trim x6 \<noteq> []"
       "mode d = Some x7" "trim x7 \<noteq> []"
       "audience d = Some x8" "trim x8 \<noteq> []"
       "organizer d = Some x9" "trim x9 \<noteq> []"
    and l: "agenda d = Some ag" "ag \<noteq> []" "tags d = Some tg" "tg \<noteq> []"
       "list_all (\<lambda>x. trim x \<noteq> []) ag" "ag1 = map (\<lambda>x. trim x) ag"
       "list_all (\<lambda>x. trim x \<noteq> []) tg" "tg1 = map (\<lambda>x. toLowerCase (trim x)) tg"
    and n: "normalizeDate host (date d) = Inr dt" "normalizeTime (time d) = Inr tm"
    and d': "Inr (d\<lparr> agenda := Some ag1, tags := Some tg1, date := dt, time := tm,
                  slug := (if isNew d \<or> isModified d ''title''
                           then Some (slugifyTitle t) else slug d) \<rparr>) = (Inr d' :: error + event_doc)"
    unfolding event_preSave_def and_then_Inr required_Inr required_array_Inr map_trimmed_Inr
    by blast
  have "text_fields_present d"
    using f by (simp add: text_fields_present_def blank_def)
  with f(1) l n d' show ?R by auto
next
  assume ?R
  then obtain t ag tg dt tm where
    f: "title d = Some t" "text_fields_present d"
    and l: "agenda d = Some ag" "ag \<noteq> []" "tags d = Some tg" "tg \<noteq> []"
       "list_all (\<lambda>x. trim x \<noteq> []) ag" "list_all (\<lambda>x. trim x \<noteq> []) tg"
    and n: "normalizeDate host (date d) = Inr dt" "normalizeTime (time d) = Inr tm"
    and d': "d' = d\<lparr> agenda := Some (map trim ag), tags := Some (map (\<lambda>x. toLowerCase (trim x)) tg),
                   date := dt, time := tm,
                   slug := (if isNew d \<or> isModified d ''title''
                            then Some (slugifyTitle t) else slug d) \<rparr>"
    by blast
  have r: "required e (title d) = Inr t" "required e (description d) = Inr (the (description d))"
     "required e (overview d) = Inr (the (overview d))" "required e (image' d) = Inr (the (image' d))"
     "required e (venue d) = Inr (the (venue d))" "required e (location d) = Inr (the (location d))"
     "required e (mode d) = Inr (the (mode d))" "required e (audience d) = Inr (the (audience d))"
     "required e (organizer d) = Inr (the (organizer d))" for e
    using f by (auto simp: required_def text_fields_present_def blank_def split: option.splits)
  have a: "required_array e (agenda d) = Inr ag" "required_array e (tags d) = Inr tg" for e
    using l by (simp_all add: required_array_def)
  have m: "map_trimmed e g ag = Inr (map (\<lambda>x. g (trim x)) ag)"
          "map_trimmed e g tg = Inr (map (\<lambda>x. g (trim x)) tg)" for e g
    using l by (simp_all add: map_trimmed_Inr)
  show ?L
    unfolding event_preSave_def r a n d' by (simp add: and_then_def m)
qed

subsection \<open>Lower case and trimming\<close>

lemma lower_char_idem: "lower_char (lower_char c) = lower_char c"
  by (auto simp: lower_char_def Let_def)

lemma toLowerCase_idem: "toLowerCase (toLowerCase s) = toLowerCase s"
  by (simp add: toLowerCase_def lower_char_idem)

lemma is_space_lower_char: "is_space (lower_char c) = is_space c"
  by (auto simp: lower_char_def Let_def is_space_def)

lemma dropWhile_space_lower:
  "dropWhile is_space (map lower_char s) = map lower_char (dropWhile is_space s)"
  by (induction s) (simp_all add: is_space_lower_char)

lemma trim_toLowerCase: "trim (toLowerCase s) = toLowerCase (trim s)"
  by (simp add: trim_def toLowerCase_def dropWhile_space_lower rev_map)

lemma dropWhile_fixed: "s = [] \<or> \<not> P (hd s) \<Longrightarrow> dropWhile P s = s"
  by (cases s) auto

lemma last_dropWhile: "dropWhile P s \<noteq> [] \<Longrightarrow> last (dropWhile P s) = last s"
  by (metis last_appendR takeWhile_dropWhile_id)

lemma trim_ends: "trim s = [] \<or> (\<not> is_space (hd (trim s)) \<and> \<not> is_space (last (trim s)))"
proof (cases "trim s = []")
  case True
  then show ?thesis by simp
next
  case False
  let ?a = "dropWhile is_space s"
  let ?b = "dropWhile is_space (rev ?a)"
  have t: "trim s = rev ?b" by (simp add: trim_def)
  from False have b: "?b \<noteq> []" by (simp add: trim_def del: dropWhile_eq_Nil_conv)
  then have a: "?a \<noteq> []" by (auto simp del: dropWhile_eq_Nil_conv)
  have "\<not> is_space (hd ?b)" using b by (rule hd_dropWhile)
  then have l: "\<not> is_space (last (trim s))" using b by (simp add: t last_rev del: dropWhile_eq_Nil_conv)
  have "last ?b = last (rev ?a)" using b by (rule last_dropWhile)
  also have "\<dots> = hd ?a" using a by (simp add: last_rev del: dropWhile_eq_Nil_conv)
  finally have "hd (trim s) = hd ?a" using b by (simp add: t hd_rev del: dropWhile_eq_Nil_conv)
  moreover have "\<not> is_space (hd ?a)" using a by (rule hd_dropWhile)
  ultimately show ?thesis using l by simp
qed

lemma trim_fixed:
  assumes "s = [] \<or> (\<not> is_space (hd s) \<and> \<not> is_space (last s))"
  shows "trim s = s"
proof (cases "s = []")
  case True
  then show ?thesis by (simp add: trim_def)
next
  case False
  with assms have h: "\<not> is_space (hd s)" and l: "\<not> is_space (last s)" by auto
  have "dropWhile is_space s = s" using h by (simp add: dropWhile_fixed)
  moreover have "dropWhile is_space (rev s) = rev s"
    using l False by (simp add: dropWhile_fixed hd_rev)
  ultimately show ?thesis by (simp add: trim_def)
qed

lemma trim_idem: "trim (trim s) = trim s"
  using trim_ends [of s] by (rule trim_fixed)

subsection \<open>What an accepted record satisfies\<close>

lemma toLowerCase_Nil_iff: "toLowerCase s = [] \<longleftrightarrow> s = []"
  by (simp add: toLowerCase_def)

lemma nonblank_list_clean:
  assumes "xs \<noteq> []" and "list_all (\<lambda>x. trim x \<noteq> []) xs"
  shows "nonblank_list (Some (map trim xs))"
    and "nonblank_list (Some (map (\<lambda>x. toLowerCase (trim x)) xs))"
    and "list_all lower_case (map (\<lambda>x. toLowerCase (trim x)) xs)"
  using assms
  by (simp_all add: nonblank_list_def items_def list_all_iff trim_idem trim_toLowerCase
      toLowerCase_Nil_iff lower_case_def toLowerCase_idem)

lemma accepted_record_clean:
  assumes "event_preSave host d = Inr d'"
  shows "text_fields_present d' \<and> lists_clean d' \<and> well_formed_HHMM (time d')"
proof -
  from assms obtain t ag tg dt tm where
    f: "text_fields_present d"
    and l: "ag \<noteq> []" "tg \<noteq> []"
       "list_all (\<lambda>x. trim x \<noteq> []) ag" "list_all (\<lambda>x. trim x \<noteq> []) tg"
    and n: "normalizeTime (time d) = Inr tm"
    and d': "d' = d\<lparr> agenda := Some (map trim ag), tags := Some (map (\<lambda>x. toLowerCase (trim x)) tg),
                   date := dt, time := tm,
                   slug := (if isNew d \<or> isModified d ''title''
                            then Some (slugifyTitle t) else slug d) \<rparr>"
    unfolding event_preSave_Inr by blast
  have "text_fields_present d'"
    using f by (simp add: d' text_fields_present_def)
  moreover have "lists_clean d'"
    using nonblank_list_clean [OF l(1) l(3)] nonblank_list_clean [OF l(2) l(4)]
    by (simp add: d' lists_clean_def items_def)
  moreover have "well_formed_HHMM (time d')"
    using normalizeTime_canonical [OF n] by (simp add: d')
  ultimately show ?thesis by simp
qed

subsection \<open>Normalizing twice\<close>

lemma slugifyTitle_idem: "slugifyTitle (slugifyTitle t) = slugifyTitle t"
  by (rule slug_fixpoint [OF slug_chars slug_no_hyphen_run])

lemma normalizeTime_idem: "normalizeTime t = Inr out \<Longrightarrow> normalizeTime out = Inr out"
  by (rule normalizeTime_fixpoint [OF normalizeTime_canonical])

lemma normalizeDate_failure:
  "normalizeDate host s = Inl e \<longleftrightarrow> Date_parse host s = None \<and> e = InvalidDateFormat"
  by (auto simp: normalizeDate_def Let_def split: option.splits)

subsection \<open>The calendar\<close>

lemma DaysInYear_range: "DaysInYear y = 365 \<or> DaysInYear y = 366"
  by (simp add: DaysInYear_def)

lemma div_bounds:
  fixes x k :: int
  assumes "0 < k"
  shows "k * (x div k) \<le> x" and "x < k * (x div k) + k"
proof -
  have "k * (x div k) + x mod k = x" by simp
  moreover have "0 \<le> x mod k" "x mod k < k" using assms by simp_all
  ultimately show "k * (x div k) \<le> x" and "x < k * (x div k) + k" by linarith+
qed

lemma year_quotients:
  fixes a b c y :: int
  assumes "4 * a \<le> y - 1969" "y - 1969 < 4 * a + 4"
    "100 * b \<le> y - 1901" "y - 1901 < 100 * b + 100"
    "400 * c \<le> y - 1601" "y - 1601 < 400 * c + 400"
  shows "146097 * (y - 1970) - 506 \<le> 400 * (365 * (y - 1970) + a - b + c)"
    and "400 * (365 * (y - 1970) + a - b + c) \<le> 146097 * (y - 1970) + 589"
  using assms by (simp_all add: algebra_simps)

lemma DayFromYear_bounds:
  "146097 * (y - 1970) - 506 \<le> 400 * DayFromYear y"
  "400 * DayFromYear y \<le> 146097 * (y - 1970) + 589"
proof -
  define a where "a = (y - 1969) div 4"
  define b where "b = (y - 1901) div 100"
  define c where "c = (y - 1601) div 400"
  have a: "4 * a \<le> y - 1969" "y - 1969 < 4 * a + 4"
    unfolding a_def by (rule div_bounds; simp)+
  have b: "100 * b \<le> y - 1901" "y - 1901 < 100 * b + 100"
    unfolding b_def by (rule div_bounds; simp)+
  have c: "400 * c \<le> y - 1601" "y - 1601 < 400 * c + 400"
    unfolding c_def by (rule div_bounds; simp)+
  have d: "DayFromYear y = 365 * (y - 1970) + a - b + c"
    by (simp add: DayFromYear_def a_def b_def c_def)
  show "146097 * (y - 1970) - 506 \<le> 400 * DayFromYear y"
    unfolding d by (rule year_quotients(1) [OF a b c])
  show "400 * DayFromYear y \<le> 146097 * (y - 1970) + 589"
    unfolding d by (rule year_quotients(2) [OF a b c])
qed

lemma div_succ:
  fixes x k :: int
  assumes "1 < k"
  shows "(x + 1) div k = (if (x + 1) mod k = 0 then x div k + 1 else x div k)"
proof -
  have e: "k * (x div k) + x mod k = x" by simp
  have r: "0 \<le> x mod k" "x mod k < k" using assms by simp_all
  show ?thesis
  proof (cases "x mod k + 1 = k")
    case True
    have "x + 1 = k * (x div k) + k" using e True by linarith
    then have s: "x + 1 = k * (x div k + 1) + 0" by (simp add: algebra_simps)
    have "(x + 1) div k = x div k + 1"
      by (rule int_div_pos_eq [OF s]) (use assms in simp_all)
    moreover have "(x + 1) mod k = 0"
      by (rule int_mod_pos_eq [OF s]) (use assms in simp_all)
    ultimately show ?thesis by simp
  next
    case False
    with r have lt: "x mod k + 1 < k" by simp
    have s: "x + 1 = k * (x div k) + (x mod k + 1)" using e by linarith
    have "(x + 1) div k = x div k"
      by (rule int_div_pos_eq [OF s]) (use r lt in simp_all)
    moreover have "(x + 1) mod k = x mod k + 1"
      by (rule int_mod_pos_eq [OF s]) (use r lt in simp_all)
    ultimately show ?thesis using r by simp
  qed
qed

lemma div_succ_shift:
  fixes y k n :: int
  assumes "1 < k" and "k dvd n"
  shows "(y - n) div k = (if y mod k = 0 then (y - n - 1) div k + 1 else (y - n - 1) div k)"
proof -
  have "(y - n - 1 + 1) mod k = 0 \<longleftrightarrow> y mod k = 0"
    using assms(2) by (simp add: mod_eq_0_iff_dvd dvd_diff_left_iff)
  then show ?thesis
    using div_succ [OF assms(1), of "y - n - 1"] by simp
qed

lemma DayFromYear_step: "DayFromYear (y + 1) = DayFromYear y + DaysInYear y"
proof -
  have a: "(y + 1 - 1969) div 4 = (if y mod 4 = 0 then (y - 1969) div 4 + 1 else (y - 1969) div 4)"
    using div_succ_shift [of 4 1968 y] by simp
  have b: "(y + 1 - 1901) div 100 = (if y mod 100 = 0 then (y - 1901) div 100 + 1 else (y - 1901) div 100)"
    using div_succ_shift [of 100 1900 y] by simp
  have c: "(y + 1 - 1601) div 400 = (if y mod 400 = 0 then (y - 1601) div 400 + 1 else (y - 1601) div 400)"
    using div_succ_shift [of 400 1600 y] by simp
  have m1: "y mod 4 = 0" if "y mod 100 = 0"
    using that dvd_trans [of 4 100 y] by (simp add: mod_eq_0_iff_dvd)
  have m2: "y mod 100 = 0" if "y mod 400 = 0"
    using that dvd_trans [of 100 400 y] by (simp add: mod_eq_0_iff_dvd)
  have "DayFromYear (y + 1) - DayFromYear y =
      365 + (if y mod 4 = 0 then 1 else 0) - (if y mod 100 = 0 then 1 else 0)
          + (if y mod 400 = 0 then 1 else 0)"
    unfolding DayFromYear_def a b c by simp
  also have "\<dots> = DaysInYear y"
    unfolding DaysInYear_def using m1 m2 by (simp split: if_splits)
  finally show ?thesis by simp
qed


lemma YearFromTime_bounds:
  "DayFromYear (YearFromTime t) \<le> Day t \<and> Day t < DayFromYear (YearFromTime t + 1)"
proof -
  define d where "d = Day t"
  define y where "y = 1970 + (400 * d) div 146097"
  have q: "146097 * (y - 1970) \<le> 400 * d" "400 * d < 146097 * (y - 1970) + 146097"
    unfolding y_def using div_bounds [of 146097 "400 * d"] by simp_all
  have lo: "400 * DayFromYear (y - 1) \<le> 146097 * (y - 1970) - 145508"
    using DayFromYear_bounds(2) [of "y - 1"] by simp
  have hi: "146097 * (y - 1970) + 291688 \<le> 400 * DayFromYear (y + 2)"
    using DayFromYear_bounds(1) [of "y + 2"] by simp
  have Y: "YearFromTime t =
      (if d < DayFromYear y then y - 1 else if DayFromYear (y + 1) \<le> d then y + 1 else y)"
    by (simp add: YearFromTime_def d_def y_def Let_def)
  consider (below) "d < DayFromYear y" | (above) "\<not> d < DayFromYear y" "DayFromYear (y + 1) \<le> d"
    | (exact) "\<not> d < DayFromYear y" "\<not> DayFromYear (y + 1) \<le> d"
    by blast
  then have "DayFromYear (YearFromTime t) \<le> d \<and> d < DayFromYear (YearFromTime t + 1)"
  proof cases
    case below
    have "DayFromYear (y - 1) \<le> d" using lo q by linarith
    with below show ?thesis by (simp add: Y)
  next
    case above
    have "d < DayFromYear (y + 2)" using hi q by linarith
    moreover have "y + 1 + 1 = y + 2" by simp
    ultimately show ?thesis using above by (simp add: Y add.commute)
  next
    case exact
    then show ?thesis by (simp add: Y)
  qed
  then show ?thesis by (simp add: d_def)
qed

lemma DayFromYear_mono: "y \<le> z \<Longrightarrow> DayFromYear y \<le> DayFromYear z"
proof (induction z rule: int_ge_induct)
  case base
  show ?case by simp
next
  case (step i)
  have "DayFromYear i \<le> DayFromYear (i + 1)"
    using DayFromYear_step [of i] DaysInYear_range [of i] by linarith
  with step show ?case by linarith
qed

text \<open>\<open>YearFromTime t\<close> is the largest year that starts no later than \<open>t\<close>.\<close>

lemma YearFromTime_largest: "DayFromYear y \<le> Day t \<longleftrightarrow> y \<le> YearFromTime t"
proof
  assume a: "DayFromYear y \<le> Day t"
  show "y \<le> YearFromTime t"
  proof (rule ccontr)
    assume "\<not> y \<le> YearFromTime t"
    then have "YearFromTime t + 1 \<le> y" by simp
    then have "DayFromYear (YearFromTime t + 1) \<le> DayFromYear y" by (rule DayFromYear_mono)
    with a YearFromTime_bounds [of t] show False by linarith
  qed
next
  assume "y \<le> YearFromTime t"
  then have "DayFromYear y \<le> DayFromYear (YearFromTime t)" by (rule DayFromYear_mono)
  with YearFromTime_bounds [of t] show "DayFromYear y \<le> Day t" by linarith
qed

lemma InLeapYear_cases: "InLeapYear t = 0 \<or> InLeapYear t = 1"
  by (simp add: InLeapYear_def)

lemma DayWithinYear_range:
  "0 \<le> DayWithinYear t \<and> DayWithinYear t < 365 + InLeapYear t"
proof -
  have "DaysInYear (YearFromTime t) = 365 + InLeapYear t"
    using DaysInYear_range [of "YearFromTime t"] by (auto simp: InLeapYear_def)
  then show ?thesis
    using YearFromTime_bounds [of t] DayFromYear_step [of "YearFromTime t"]
    by (simp add: DayWithinYear_def)
qed

lemma month_date_range:
  "0 \<le> MonthFromTime t \<and> MonthFromTime t \<le> 11 \<and> 1 \<le> DateFromTime t
   \<and> DateFromTime t \<le> month_starts (InLeapYear t) ! (nat (MonthFromTime t) + 1)
                          - month_starts (InLeapYear t) ! nat (MonthFromTime t)"
  using DayWithinYear_range [of t] InLeapYear_cases [of t]
  unfolding DateFromTime_def MonthFromTime_def Let_def month_starts_def
  by (auto split: if_splits)

subsection \<open>Printing and reading numbers\<close>

lemma digits_of_small: "n < 10 \<Longrightarrow> digits_of n = [char_of (48 + n)]"
  by (subst digits_of.simps) simp

lemma digits_of_large:
  "10 \<le> n \<Longrightarrow> digits_of n = digits_of (n div 10) @ [char_of (48 + n mod 10)]"
  by (subst digits_of.simps) simp

lemma digit_char:
  assumes "k < 10"
  shows "is_digit (char_of (48 + k))" and "digit_value (char_of (48 + k)) = k"
  using assms by (simp_all add: is_digit_def in_range_def digit_value_def)

lemma number2_chars:
  "a < 10 \<Longrightarrow> b < 10 \<Longrightarrow> number2 (char_of (48 + a)) (char_of (48 + b)) = Some (10 * a + b)"
  by (simp add: number2_def digit_char)

lemma digits_of_2:
  "n < 100 \<Longrightarrow> padStart 2 (CHR ''0'') (digits_of n) = [char_of (48 + n div 10), char_of (48 + n mod 10)]"
proof (cases "n < 10")
  case True
  moreover have "char_of (48 :: nat) = CHR ''0''" by (simp add: char_of_eq_iff)
  ultimately show ?thesis by (simp add: digits_of_small padStart_def)
next
  case False
  assume "n < 100"
  with False have "n div 10 < 10" "10 \<le> n" by simp_all
  then show ?thesis by (simp add: digits_of_large digits_of_small padStart_def)
qed

lemma digits_of_4:
  assumes "1000 \<le> n" and "n \<le> 9999"
  shows "digits_of n =
    [char_of (48 + n div 1000), char_of (48 + n div 100 mod 10),
     char_of (48 + n div 10 mod 10), char_of (48 + n mod 10)]"
proof -
  have a: "10 \<le> n" "10 \<le> n div 10" "10 \<le> n div 10 div 10" "n div 10 div 10 div 10 < 10"
    using assms by simp_all
  have b: "n div 10 div 10 = n div 100" "n div 100 div 10 = n div 1000"
    by (simp_all add: div_mult2_eq [symmetric])
  have 1: "digits_of n = digits_of (n div 10) @ [char_of (48 + n mod 10)]"
    by (rule digits_of_large [OF a(1)])
  have 2: "digits_of (n div 10) = digits_of (n div 10 div 10) @ [char_of (48 + n div 10 mod 10)]"
    by (rule digits_of_large [OF a(2)])
  have 3: "digits_of (n div 10 div 10) =
      digits_of (n div 10 div 10 div 10) @ [char_of (48 + n div 10 div 10 mod 10)]"
    by (rule digits_of_large [OF a(3)])
  have 4: "digits_of (n div 10 div 10 div 10) = [char_of (48 + n div 10 div 10 div 10)]"
    by (rule digits_of_small [OF a(4)])
  show ?thesis
    unfolding 1 2 3 4 by (simp only: b append.simps)
qed

subsection \<open>Dates with a four-digit year\<close>

lemma normalizeDate_Some:
  "Date_parse host s = Some t \<Longrightarrow> normalizeDate host s = Inr (utc_date_string t)"
  by (simp add: normalizeDate_def utc_date_string_def Let_def)

lemma Day_midnight: "Day (MakeDate day 0) = day"
  by (simp add: Day_def MakeDate_def msPerDay_def)

lemma fields_of_Day:
  assumes "Day t' = Day t"
  shows "YearFromTime t' = YearFromTime t" and "MonthFromTime t' = MonthFromTime t"
    and "DateFromTime t' = DateFromTime t"
proof -
  show y: "YearFromTime t' = YearFromTime t"
    by (simp only: YearFromTime_def assms)
  have w: "DayWithinYear t' = DayWithinYear t" "InLeapYear t' = InLeapYear t"
    by (simp_all only: DayWithinYear_def InLeapYear_def y assms)
  show m: "MonthFromTime t' = MonthFromTime t"
    by (simp only: MonthFromTime_def w)
  show "DateFromTime t' = DateFromTime t"
    by (simp only: DateFromTime_def w m)
qed

lemma utc_date_string_of_Day:
  assumes "Day t' = Day t"
  shows "utc_date_string t' = utc_date_string t"
  unfolding utc_date_string_def fields_of_Day [OF assms] by (rule refl)

lemma four_digits_sum:
  fixes n a b c d r1 r2 :: nat
  assumes "n = 1000 * a + r1" and "r1 = 100 * b + r2" and "r2 = 10 * c + d"
  shows "100 * (10 * a + b) + (10 * c + d) = n"
  unfolding assms by (simp add: algebra_simps)

lemma four_digits_value:
  fixes n :: nat
  shows "100 * (10 * (n div 1000) + n div 100 mod 10) + (10 * (n div 10 mod 10) + n mod 10) = n"
proof (rule four_digits_sum)
  show "n = 1000 * (n div 1000) + n mod 1000" by simp
  have k: "(100::nat) * 10 = 1000" "(10::nat) * 10 = 100" by simp_all
  have "n mod (100 * 10) = 100 * (n div 100 mod 10) + n mod 100"
    by (rule mod_mult2_eq)
  then show "n mod 1000 = 100 * (n div 100 mod 10) + n mod 100"
    by (simp only: k)
  have "n mod (10 * 10) = 10 * (n div 10 mod 10) + n mod 10"
    by (rule mod_mult2_eq)
  then show "n mod 100 = 10 * (n div 10 mod 10) + n mod 10"
    by (simp only: k)
qed

lemma month_starts_span:
  assumes "leap = 0 \<or> leap = 1" and "m \<le> 11"
  shows "month_starts leap ! (m + 1) - month_starts leap ! m \<le> 31"
proof -
  have "m = 0 \<or> m = 1 \<or> m = 2 \<or> m = 3 \<or> m = 4 \<or> m = 5 \<or> m = 6 \<or> m = 7
        \<or> m = 8 \<or> m = 9 \<or> m = 10 \<or> m = 11"
    using assms(2) by presburger
  then show ?thesis using assms(1) by (auto simp: month_starts_def)
qed

lemma iso_date_chars:
  assumes "number2 y1 y2 = Some yh" and "number2 y3 y4 = Some yl"
    and "number2 m1 m2 = Some m" and "number2 d1 d2 = Some d"
    and "1 \<le> m" and "m \<le> 12" and "1 \<le> d"
    and "int d \<le> month_starts (if DaysInYear (int (100 * yh + yl)) = 366 then 1 else 0) ! m
                 - month_starts (if DaysInYear (int (100 * yh + yl)) = 366 then 1 else 0) ! (m - 1)"
  shows "iso_date [y1, y2, y3, y4, CHR ''-'', m1, m2, CHR ''-'', d1, d2]
         = Some (MakeDay (int (100 * yh + yl)) (m - 1) (int d), [])"
  unfolding iso_date.simps assms(1-4) using assms(5-8) by (simp add: Let_def)

lemma utc_date_string_four_digit_year:
  assumes "1000 \<le> YearFromTime t" and "YearFromTime t \<le> 9999"
  shows "canonical_date (utc_date_string t)"
    and "iso_parse (utc_date_string t) = Some (MakeDate (Day t) 0)"
proof -
  define Y where "Y = nat (YearFromTime t)"
  define M where "M = nat (MonthFromTime t + 1)"
  define D where "D = nat (DateFromTime t)"
  define leap where "leap = InLeapYear t"
  have r1: "0 \<le> MonthFromTime t" and r2: "MonthFromTime t \<le> 11"
    and r3: "1 \<le> DateFromTime t"
    and r4: "DateFromTime t \<le> month_starts (InLeapYear t) ! (nat (MonthFromTime t) + 1)
                          - month_starts (InLeapYear t) ! nat (MonthFromTime t)"
    using month_date_range [of t] by blast+
  have Y: "1000 \<le> Y" "Y \<le> 9999" "int Y = YearFromTime t"
    using assms by (simp_all add: Y_def)
  have M: "1 \<le> M" "M \<le> 12" "int M = MonthFromTime t + 1" "M - 1 = nat (MonthFromTime t)"
    "M = nat (MonthFromTime t) + 1"
    using r1 r2 unfolding M_def by linarith+
  have span: "month_starts leap ! M - month_starts leap ! (M - 1) \<le> 31"
    using month_starts_span [of leap "M - 1"] InLeapYear_cases [of t] M(1,2)
    by (simp add: leap_def)
  have D: "1 \<le> D" "int D = DateFromTime t"
    using r3 unfolding D_def by linarith+
  have D3: "int D \<le> month_starts leap ! M - month_starts leap ! (M - 1)"
    using r4 unfolding D(2) M(4) M(5) leap_def by simp
  have D31: "D \<le> 31" using D3 span by linarith
  have ys: "String_of_int (YearFromTime t) =
      [char_of (48 + Y div 1000), char_of (48 + Y div 100 mod 10),
       char_of (48 + Y div 10 mod 10), char_of (48 + Y mod 10)]"
    using assms(1) digits_of_4 [OF Y(1,2)] by (simp add: String_of_int_def Y_def)
  have ms: "padStart 2 (CHR ''0'') (String_of_int (MonthFromTime t + 1)) =
      [char_of (48 + M div 10), char_of (48 + M mod 10)]"
    using r1 digits_of_2 [of M] M(2) by (simp add: String_of_int_def M_def)
  have ds: "padStart 2 (CHR ''0'') (String_of_int (DateFromTime t)) =
      [char_of (48 + D div 10), char_of (48 + D mod 10)]"
    using r3 digits_of_2 [of D] D31 by (simp add: String_of_int_def D_def)
  have s: "utc_date_string t =
      [char_of (48 + Y div 1000), char_of (48 + Y div 100 mod 10),
       char_of (48 + Y div 10 mod 10), char_of (48 + Y mod 10), CHR ''-'',
       char_of (48 + M div 10), char_of (48 + M mod 10), CHR ''-'',
       char_of (48 + D div 10), char_of (48 + D mod 10)]"
    by (simp add: utc_date_string_def ys ms ds)
  have lt: "Y div 1000 < 10" "Y div 100 mod 10 < 10" "Y div 10 mod 10 < 10" "Y mod 10 < 10"
    "M div 10 < 10" "M mod 10 < 10" "D div 10 < 10" "D mod 10 < 10"
    using Y(2) M(2) D31 by simp_all
  show "canonical_date (utc_date_string t)"
    unfolding s using lt by (simp add: canonical_date_def digit_char(1))
  have n: "number2 (char_of (48 + Y div 1000)) (char_of (48 + Y div 100 mod 10))
             = Some (10 * (Y div 1000) + Y div 100 mod 10)"
    "number2 (char_of (48 + Y div 10 mod 10)) (char_of (48 + Y mod 10))
             = Some (10 * (Y div 10 mod 10) + Y mod 10)"
    "number2 (char_of (48 + M div 10)) (char_of (48 + M mod 10)) = Some M"
    "number2 (char_of (48 + D div 10)) (char_of (48 + D mod 10)) = Some D"
    using lt by (simp_all add: number2_chars)
  have leap: "(if DaysInYear (int Y) = 366 then 1 else 0) = leap"
    by (simp add: leap_def InLeapYear_def Y(3))
  have day: "MakeDay (int Y) (M - 1) (int D) = Day t"
    unfolding MakeDay_def leap M(4) D(2)
    by (simp add: Y(3) DateFromTime_def DayWithinYear_def leap_def)
  note v = four_digits_value [of Y]
  have "iso_date (utc_date_string t) = Some (Day t, [])"
    unfolding s
    using iso_date_chars [OF n M(1,2) D(1), unfolded v leap, OF D3] by (simp only: day)
  then show "iso_parse (utc_date_string t) = Some (MakeDate (Day t) 0)"
    by (simp add: iso_parse_def)
qed

lemma normalizeDate_four_digit_year:
  assumes "Date_parse host s = Some t" and "1000 \<le> YearFromTime t" and "YearFromTime t \<le> 9999"
  shows "normalizeDate host s = Inr (utc_date_string t)"
    and "canonical_date (utc_date_string t)"
    and "normalizeDate host (utc_date_string t) = Inr (utc_date_string t)"
proof -
  show "normalizeDate host s = Inr (utc_date_string t)"
    by (rule normalizeDate_Some [OF assms(1)])
  show "canonical_date (utc_date_string t)"
    by (rule utc_date_string_four_digit_year(1) [OF assms(2,3)])
  have "Date_parse host (utc_date_string t) = Some (MakeDate (Day t) 0)"
    by (simp add: Date_parse_def utc_date_string_four_digit_year(2) [OF assms(2,3)])
  then have "normalizeDate host (utc_date_string t) = Inr (utc_date_string (MakeDate (Day t) 0))"
    by (rule normalizeDate_Some)
  then show "normalizeDate host (utc_date_string t) = Inr (utc_date_string t)"
    by (simp add: utc_date_string_of_Day [OF Day_midnight])
qed

lemma accepted_date_canonical:
  assumes "event_preSave host d = Inr d'" and "Date_parse host (date d) = Some t"
    and "1000 \<le> YearFromTime t" and "YearFromTime t \<le> 9999"
  shows "accepted_invariant d'"
proof -
  from assms(1) obtain tl ag tg dt tm where
    n: "normalizeDate host (date d) = Inr dt"
    and d': "d' = d\<lparr> agenda := Some (map trim ag), tags := Some (map (\<lambda>x. toLowerCase (trim x)) tg),
                   date := dt, time := tm,
                   slug := (if isNew d \<or> isModified d ''title''
                            then Some (slugifyTitle tl) else slug d) \<rparr>"
    unfolding event_preSave_Inr by blast
  have "dt = utc_date_string t"
    using n normalizeDate_four_digit_year(1) [OF assms(2-4)] by simp
  then have "canonical_date (date d')"
    using normalizeDate_four_digit_year(2) [OF assms(2-4)] by (simp add: d')
  with accepted_record_clean [OF assms(1)] show ?thesis
    by (simp add: accepted_invariant_def)
qed

section \<open>Claims\<close>

text \<open>
  C5. For every input string the slug generator computes exactly: lower-case the input,
  trim leading and trailing whitespace, remove every character that is not a lower-case
  letter, a digit, whitespace or a hyphen, collapse each run of whitespace into a single
  hyphen, then collapse each run of hyphens into a single hyphen. In particular the slug
  of \<^verbatim>\<open>"  Hello, World!! 2024  "\<close> is \<^verbatim>\<open>"hello-world-2024"\<close> and the slug of \<^verbatim>\<open>"!!!"\<close> is empty.
\<close>

theorem slugifyTitle_is_spec_algorithm:
  "slugifyTitle t = slugify_spec t
   \<and> slugifyTitle ''  Hello, World!! 2024  '' = ''hello-world-2024''
   \<and> slugifyTitle ''!!!'' = []"
proof -
  have "slugifyTitle ''  Hello, World!! 2024  '' = ''hello-world-2024''"
    by code_simp
  moreover have "slugifyTitle ''!!!'' = []"
    by code_simp
  ultimately show ?thesis
    using slugify_spec_eq by simp
qed

text \<open>
  C3. \<^verbatim>\<open>normalizeTime\<close> succeeds exactly on the inputs that, once leading and trailing
  whitespace is stripped, have the form \<^verbatim>\<open>HH:MM\<close> or \<^verbatim>\<open>HH:MM:SS\<close> with hours 00 to 23,
  minutes 00 to 59 and seconds 00 to 59. On success the result is the five characters
  \<^verbatim>\<open>HH:MM\<close>, the seconds being dropped; every other input fails with an error of kind
  \<open>InvalidFormat\<close>. In particular \<^verbatim>\<open>"09:05:30"\<close> gives \<^verbatim>\<open>"09:05"\<close> and \<^verbatim>\<open>"9:5"\<close> fails.
\<close>

theorem normalizeTime_correct:
  "normalizeTime t =
     (if well_formed_time (trim t) then Inr (take 5 (trim t)) else Inl InvalidTimeFormat)
   \<and> (case normalizeTime t of Inr out \<Rightarrow> well_formed_HHMM out | Inl e \<Rightarrow> kind e = InvalidFormat)
   \<and> normalizeTime ''09:05:30'' = Inr ''09:05''
   \<and> normalizeTime ''9:5'' = Inl InvalidTimeFormat"
proof -
  have a: "normalizeTime t =
     (if well_formed_time (trim t) then Inr (take 5 (trim t)) else Inl InvalidTimeFormat)"
    by (rule normalizeTime_spec)
  have b: "case normalizeTime t of Inr out \<Rightarrow> well_formed_HHMM out | Inl e \<Rightarrow> kind e = InvalidFormat"
    unfolding a by (simp add: well_formed_time_def)
  have c: "normalizeTime ''09:05:30'' = Inr ''09:05''"
    by code_simp
  have d: "normalizeTime ''9:5'' = Inl InvalidTimeFormat"
    by code_simp
  from a b c d show ?thesis by blast
qed

text \<open>
  C10. Every string that the booking email check accepts contains, once trimmed, exactly
  one \<^verbatim>\<open>@\<close> and no whitespace, and splits as \<open>l @ d . t\<close> where the dot lies after the
  \<^verbatim>\<open>@\<close> and before the end, and \<open>l\<close>, \<open>d\<close> and \<open>t\<close> are non-empty and free of whitespace
  and of \<^verbatim>\<open>@\<close>.
\<close>

theorem isValidEmail_shape:
  assumes "isValidEmail e"
  shows "count_list (trim e) (CHR ''@'') = 1
    \<and> \<not> list_ex is_space (trim e)
    \<and> (\<exists>l d t. trim e = l @ CHR ''@'' # d @ CHR ''.'' # t
          \<and> l \<noteq> [] \<and> d \<noteq> [] \<and> t \<noteq> []
          \<and> list_all not_space_at l \<and> list_all not_space_at d \<and> list_all not_space_at t)"
proof -
  from assms obtain l d t where s: "trim e = l @ CHR ''@'' # d @ CHR ''.'' # t"
    and ne: "l \<noteq> []" "d \<noteq> []" "t \<noteq> []"
    and cl: "list_all not_space_at l" "list_all not_space_at d" "list_all not_space_at t"
    unfolding isValidEmail_def Let_def email_re_shape by blast
  have "count_list (trim e) (CHR ''@'') = 1"
    unfolding s using cl by (simp add: count_not_space_at)
  moreover have "\<not> list_ex is_space (trim e)"
    unfolding s using cl by (simp add: no_space_not_space_at at_not_space)
  ultimately show ?thesis using s ne cl by blast
qed

text \<open>C10, at the address \<^verbatim>\<open>"  user@example.com "\<close>.\<close>

theorem isValidEmail_shape_witness:
  "isValidEmail ''  user@example.com ''
   \<and> count_list (trim ''  user@example.com '') (CHR ''@'') = 1
   \<and> \<not> list_ex is_space (trim ''  user@example.com '')"
proof -
  have v: "isValidEmail ''  user@example.com ''"
    by code_simp
  from isValidEmail_shape [OF v] v show ?thesis by blast
qed

text \<open>
  C7. For every existing event, a successful save that does not change the title leaves
  the slug equal to its stored value, whatever other fields change; a save that changes
  the title (or creates the record) recomputes the slug from the new title with the slug
  generator. The hook never writes the title.
\<close>

theorem slug_follows_title:
  assumes "event_preSave host d = Inr d'"
  shows "title d' = title d
    \<and> (\<not> isNew d \<and> \<not> isModified d ''title'' \<longrightarrow> slug d' = slug d)
    \<and> (isNew d \<or> isModified d ''title''
         \<longrightarrow> (\<exists>t. title d = Some t \<and> slug d' = Some (slugifyTitle t)))"
proof -
  from assms obtain t ag tg dt tm where t: "title d = Some t"
    and d': "d' = d\<lparr> agenda := Some (map trim ag), tags := Some (map (\<lambda>x. toLowerCase (trim x)) tg),
                   date := dt, time := tm,
                   slug := (if isNew d \<or> isModified d ''title''
                            then Some (slugifyTitle t) else slug d) \<rparr>"
    unfolding event_preSave_Inr by blast
  show ?thesis unfolding d' using t by auto
qed

text \<open>
  C7, on a stored record: an update of description and tags keeps the slug
  \<^verbatim>\<open>first-title\<close>, and an update of the title to \<^verbatim>\<open>Second Title\<close> stores \<^verbatim>\<open>second-title\<close>.
\<close>

theorem slug_follows_title_witness:
  "saved_slug (event_preSave strict_host edited_event) = slug edited_event
   \<and> slug edited_event = Some ''first-title''
   \<and> saved_slug (event_preSave strict_host retitled_event) = Some ''second-title''"
proof -
  have e: "event_preSave strict_host edited_event =
      Inr (edited_event \<lparr> agenda := Some [''Intro'', ''Keynote''], tags := Some [''cloud''] \<rparr>)"
    by code_simp
  have n: "\<not> isNew edited_event \<and> \<not> isModified edited_event ''title''"
    by code_simp
  have s: "slug edited_event = Some ''first-title''"
    by code_simp
  have r: "event_preSave strict_host retitled_event =
      Inr (retitled_event \<lparr> agenda := Some [''Intro'', ''Keynote''], tags := Some [''web'', ''ai''],
             slug := Some ''second-title'' \<rparr>)"
    by code_simp
  have m: "isModified retitled_event ''title''"
    by code_simp
  from slug_follows_title [OF e] n have "saved_slug (event_preSave strict_host edited_event) = slug edited_event"
    unfolding e by (simp add: saved_slug_def)
  moreover from slug_follows_title [OF r] m
  have "saved_slug (event_preSave strict_host retitled_event) = Some ''second-title''"
    unfolding r by (simp add: saved_slug_def)
  ultimately show ?thesis using s by simp
qed

text \<open>
  C1, as stated: for every title that validation accepts, the stored slug is non-empty,
  consists of lower-case letters, digits and hyphens, has no hyphen at either end and no
  two hyphens in a row. This fails: the accepted title \<^verbatim>\<open>"!!!"\<close> is stored with the empty
  slug, \<^verbatim>\<open>"C++ !"\<close> with \<^verbatim>\<open>"c-"\<close> and \<^verbatim>\<open>"-rc1"\<close> with \<^verbatim>\<open>"-rc1"\<close>.
\<close>

theorem slug_url_safe_counterexample:
  "saved_slug (event_preSave strict_host (sample_event \<lparr> title := Some ''!!!'' \<rparr>)) = Some []
   \<and> \<not> url_safe []
   \<and> saved_slug (event_preSave strict_host (sample_event \<lparr> title := Some ''C++ !'' \<rparr>)) = Some ''c-''
   \<and> \<not> url_safe ''c-''
   \<and> saved_slug (event_preSave strict_host (sample_event \<lparr> title := Some ''-rc1'' \<rparr>)) = Some ''-rc1''
   \<and> \<not> url_safe ''-rc1''"
proof -
  have "saved_slug (event_preSave strict_host (sample_event \<lparr> title := Some ''!!!'' \<rparr>)) = Some []"
    by code_simp
  moreover have "saved_slug (event_preSave strict_host (sample_event \<lparr> title := Some ''C++ !'' \<rparr>)) = Some ''c-''"
    by code_simp
  moreover have "saved_slug (event_preSave strict_host (sample_event \<lparr> title := Some ''-rc1'' \<rparr>)) = Some ''-rc1''"
    by code_simp
  moreover have "\<not> url_safe []" "\<not> url_safe ''c-''" "\<not> url_safe ''-rc1''"
    by (simp_all add: url_safe_def)
  ultimately show ?thesis by simp
qed

text \<open>
  C1, amended: for every title that validation accepts, the slug derived and stored on
  a new record or on a change of title consists only of lower-case letters, digits and
  hyphens and has no two hyphens in a row.
\<close>

theorem stored_slug_charset:
  assumes "event_preSave host d = Inr d'" and "isNew d \<or> isModified d ''title''"
  shows "\<exists>t s. title d = Some t \<and> s = slugifyTitle t \<and> slug d' = Some s
           \<and> list_all slug_char s \<and> no_hyphen_run s"
proof -
  from assms(1) obtain t ag tg dt tm where t: "title d = Some t"
    and d': "d' = d\<lparr> agenda := Some (map trim ag), tags := Some (map (\<lambda>x. toLowerCase (trim x)) tg),
                   date := dt, time := tm,
                   slug := (if isNew d \<or> isModified d ''title''
                            then Some (slugifyTitle t) else slug d) \<rparr>"
    unfolding event_preSave_Inr by blast
  have "slug d' = Some (slugifyTitle t)"
    unfolding d' using assms(2) by auto
  with t show ?thesis by (simp add: slug_chars slug_no_hyphen_run)
qed

text \<open>C1, amended, on the new record titled \<^verbatim>\<open>"Hello, World!! 2024"\<close>.\<close>

theorem stored_slug_charset_witness:
  "saved_slug (event_preSave strict_host sample_event) = Some ''hello-world-2024''
   \<and> list_all slug_char ''hello-world-2024'' \<and> no_hyphen_run ''hello-world-2024''"
proof -
  have e: "event_preSave strict_host sample_event =
    Inr (sample_event\<lparr> agenda := Some [''Intro'', ''Keynote''], tags := Some [''web'', ''ai''],
        date := ''2024-03-02'', time := ''09:05'', slug := Some ''hello-world-2024'' \<rparr>)"
    by code_simp
  have n: "isNew sample_event \<or> isModified sample_event ''title''"
    by code_simp
  have "slugifyTitle ''Hello, World!! 2024'' = ''hello-world-2024''"
    by code_simp
  with stored_slug_charset [OF e n] show ?thesis
    unfolding e by (simp add: saved_slug_def sample_event_def)
qed

text \<open>
  C2, as stated: validation runs (1) the presence checks of the nine text fields,
  (2) agenda non-empty and every agenda element non-empty after trimming, (3) the same
  for tags, (4) the date, (5) the time, and reports the error of the earliest failing
  step, so that a blank agenda element is reported before any failure of the tags. This
  fails: with the agenda \<^verbatim>\<open>["  ", "Keynote"]\<close> and no tags the hook reports the missing
  tags, where the stated order reports the blank agenda element.
\<close>

theorem validation_order_counterexample:
  "failure_of (event_preSave strict_host blank_agenda_no_tags) = Some TagsRequired
   \<and> first_failure (spec_steps strict_host blank_agenda_no_tags) = Some AgendaItemEmpty
   \<and> kind TagsRequired = MissingField \<and> kind AgendaItemEmpty = EmptyListItem"
proof -
  have "failure_of (event_preSave strict_host blank_agenda_no_tags) = Some TagsRequired"
    by code_simp
  moreover have "first_failure (spec_steps strict_host blank_agenda_no_tags) = Some AgendaItemEmpty"
    by code_simp
  ultimately show ?thesis by simp
qed

text \<open>
  C2, amended: on every save attempt validation runs, in this order, (1) the presence
  checks of title, description, overview, image, venue, location, mode, audience and
  organizer (\<open>MissingField\<close>), (2) agenda non-empty (\<open>MissingField\<close>), (3) tags non-empty
  (\<open>MissingField\<close>), (4) every agenda element non-empty after trimming (\<open>EmptyListItem\<close>),
  (5) every tag non-empty after trimming (\<open>EmptyListItem\<close>), (6) the date, (7) the time
  (\<open>InvalidFormat\<close>), and the error returned is that of the earliest failing step. In
  particular, when the text fields are present, an empty agenda yields \<open>MissingField\<close>,
  and the agenda \<^verbatim>\<open>["  ", "Keynote"]\<close> yields \<open>EmptyListItem\<close> when the tags are not empty.
\<close>

theorem validation_order:
  "failure_of (event_preSave host d) = first_failure (hook_steps host d)
   \<and> list_all (\<lambda>e. kind e = MissingField)
        [TitleRequired, DescriptionRequired, OverviewRequired, ImageRequired, VenueRequired,
         LocationRequired, ModeRequired, AudienceRequired, OrganizerRequired,
         AgendaRequired, TagsRequired]
   \<and> list_all (\<lambda>e. kind e = EmptyListItem) [AgendaItemEmpty, TagEmpty]
   \<and> list_all (\<lambda>e. kind e = InvalidFormat) [InvalidDateFormat, InvalidTimeFormat]
   \<and> (presence_step d = None \<and> agenda d = Some []
        \<longrightarrow> event_preSave host d = Inl AgendaRequired)
   \<and> (presence_step d = None \<and> tags_present d = None \<and> agenda d = Some [''  '', ''Keynote'']
        \<longrightarrow> event_preSave host d = Inl AgendaItemEmpty)"
proof -
  have order: "failure_of (event_preSave host d) = first_failure (hook_steps host d)"
    by (rule event_preSave_failure)
  have inl: "r = Inl e" if "failure_of r = Some e" for r :: "error + event_doc" and e
    using that by (cases r) (simp_all add: failure_of_def)
  have a: "event_preSave host d = Inl AgendaRequired"
    if "presence_step d = None \<and> agenda d = Some []"
  proof -
    have "first_failure (hook_steps host d) = Some AgendaRequired"
      using that by (simp add: hook_steps_def agenda_present_def items_def check_def)
    then show ?thesis using order inl by simp
  qed
  have b: "event_preSave host d = Inl AgendaItemEmpty"
    if "presence_step d = None \<and> tags_present d = None \<and> agenda d = Some [''  '', ''Keynote'']"
  proof -
    have "trim ''  '' = []" by code_simp
    then have "first_failure (hook_steps host d) = Some AgendaItemEmpty"
      using that
      by (simp add: hook_steps_def agenda_present_def agenda_items_def items_def check_def)
    then show ?thesis using order inl by simp
  qed
  from order a b show ?thesis by simp
qed

text \<open>
  C2, amended, on three records with all text fields present: an empty agenda, the agenda
  \<^verbatim>\<open>["  ", "Keynote"]\<close> with tags, and the same agenda without tags.
\<close>

theorem validation_order_witness:
  "event_preSave strict_host (sample_event \<lparr> agenda := Some [] \<rparr>) = Inl AgendaRequired
   \<and> event_preSave strict_host (sample_event \<lparr> agenda := Some [''  '', ''Keynote''] \<rparr>)
       = Inl AgendaItemEmpty
   \<and> failure_of (event_preSave strict_host blank_agenda_no_tags)
       = first_failure (hook_steps strict_host blank_agenda_no_tags)"
proof -
  have p1: "presence_step (sample_event \<lparr> agenda := Some [] \<rparr>) = None
            \<and> agenda (sample_event \<lparr> agenda := Some [] \<rparr>) = Some []"
    by code_simp
  have p2: "presence_step (sample_event \<lparr> agenda := Some [''  '', ''Keynote''] \<rparr>) = None
            \<and> tags_present (sample_event \<lparr> agenda := Some [''  '', ''Keynote''] \<rparr>) = None
            \<and> agenda (sample_event \<lparr> agenda := Some [''  '', ''Keynote''] \<rparr>)
                = Some [''  '', ''Keynote'']"
    by code_simp
  from validation_order [of strict_host "sample_event \<lparr> agenda := Some [] \<rparr>"] p1
  have "event_preSave strict_host (sample_event \<lparr> agenda := Some [] \<rparr>) = Inl AgendaRequired"
    by blast
  moreover from validation_order [of strict_host "sample_event \<lparr> agenda := Some [''  '', ''Keynote''] \<rparr>"] p2
  have "event_preSave strict_host (sample_event \<lparr> agenda := Some [''  '', ''Keynote''] \<rparr>)
       = Inl AgendaItemEmpty"
    by blast
  moreover from validation_order [of strict_host blank_agenda_no_tags]
  have "failure_of (event_preSave strict_host blank_agenda_no_tags)
       = first_failure (hook_steps strict_host blank_agenda_no_tags)"
    by blast
  ultimately show ?thesis by blast
qed

text \<open>
  C6. The existence lookup is the third step of a booking save, after the presence and
  format checks of the email. On a save that reaches it, the lookup is performed if and
  only if the booking is new or its event id has been modified; when it is performed and
  no event has that id, the save is rejected with \<open>DanglingReference\<close>; an update that
  does not touch the event id is accepted without a lookup, whatever the store holds. A
  save whose email fails its checks is rejected with the error of that check, without a
  lookup.
\<close>

theorem booking_lookup:
  "snd (booking_preSave store b) =
     (if email_accepted b \<and> (isNew b \<or> isModified b ''eventId'') then [eventId b] else [])
   \<and> (email_accepted b \<and> (isNew b \<or> isModified b ''eventId'')
        \<longrightarrow> fst (booking_preSave store b) =
              (case store (eventId b) of
                 Present \<Rightarrow> Inr b | Absent \<Rightarrow> Inl EventNotFound | Rejected \<Rightarrow> Inl StoreFailure))
   \<and> kind EventNotFound = DanglingReference
   \<and> (email_accepted b \<and> \<not> isNew b \<and> \<not> isModified b ''eventId''
        \<longrightarrow> booking_preSave store b = (Inr b, []))
   \<and> (\<not> email_accepted b
        \<longrightarrow> booking_preSave store b =
              (Inl (if blank (email b) then EmailRequired else InvalidEmailFormat), []))
   \<and> kind EmailRequired = MissingField \<and> kind InvalidEmailFormat = InvalidFormat"
  by (cases "store (eventId b)")
     (auto simp: booking_preSave_def required_def email_accepted_def blank_def
           split: option.splits)

text \<open>
  C6, on a new booking for an event that is absent, on an update of the email alone after
  every event has been deleted, and on a new booking whose email is not an address.
\<close>

theorem booking_lookup_witness:
  "booking_preSave empty_store sample_booking = (Inl EventNotFound, [7])
   \<and> booking_preSave empty_store
        (sample_booking \<lparr> isNew := False, modifiedPaths := [''email''],
                          email := Some ''other@example.com'' \<rparr>)
       = (Inr (sample_booking \<lparr> isNew := False, modifiedPaths := [''email''],
                                email := Some ''other@example.com'' \<rparr>), [])
   \<and> booking_preSave full_store (sample_booking \<lparr> email := Some ''not-an-address'' \<rparr>)
       = (Inl InvalidEmailFormat, [])"
proof -
  let ?u = "sample_booking \<lparr> isNew := False, modifiedPaths := [''email''],
                             email := Some ''other@example.com'' \<rparr>"
  let ?w = "sample_booking \<lparr> email := Some ''not-an-address'' \<rparr>"
  have a: "email_accepted sample_booking \<and> (isNew sample_booking \<or> isModified sample_booking ''eventId'')
           \<and> empty_store (eventId sample_booking) = Absent \<and> eventId sample_booking = 7"
    by code_simp
  have u: "email_accepted ?u \<and> \<not> isNew ?u \<and> \<not> isModified ?u ''eventId''"
    by code_simp
  have w: "\<not> email_accepted ?w \<and> \<not> blank (email ?w)"
    by code_simp
  from booking_lookup [of empty_store sample_booking] a
  have "booking_preSave empty_store sample_booking = (Inl EventNotFound, [7])"
    by (simp add: prod_eq_iff empty_store_def)
  moreover from booking_lookup [of empty_store ?u] u
  have "booking_preSave empty_store ?u = (Inr ?u, [])"
    by blast
  moreover from booking_lookup [of full_store ?w] w
  have "booking_preSave full_store ?w = (Inl InvalidEmailFormat, [])"
    by simp
  ultimately show ?thesis by simp
qed

text \<open>
  C4. \<^verbatim>\<open>normalizeDate\<close> fails with an error of kind \<open>InvalidFormat\<close> when the host cannot
  parse the input, and otherwise returns the UTC year, month and day as zero-padded
  \<^verbatim>\<open>YYYY-MM-DD\<close>. The rollover example holds on every host: \<^verbatim>\<open>"2024-03-01T23:00:00-05:00"\<close>
  gives \<^verbatim>\<open>"2024-03-02"\<close>, and \<^verbatim>\<open>"not-a-date"\<close> fails on a host that does not read it. The year
  is not padded: on every host \<^verbatim>\<open>"0999-06-01"\<close> gives \<^verbatim>\<open>"999-06-01"\<close>.
\<close>

theorem normalizeDate_year_not_padded:
  "normalizeDate host ''0999-06-01'' = Inr ''999-06-01''
   \<and> \<not> canonical_date ''999-06-01''
   \<and> normalizeDate host ''2024-03-01T23:00:00-05:00'' = Inr ''2024-03-02''
   \<and> normalizeDate strict_host ''not-a-date'' = Inl InvalidDateFormat
   \<and> kind InvalidDateFormat = InvalidFormat"
proof -
  have "normalizeDate host ''0999-06-01'' = Inr ''999-06-01''"
    by code_simp
  moreover have "\<not> canonical_date ''999-06-01''"
    by (simp add: canonical_date_def)
  moreover have "normalizeDate host ''2024-03-01T23:00:00-05:00'' = Inr ''2024-03-02''"
    by code_simp
  moreover have "normalizeDate strict_host ''not-a-date'' = Inl InvalidDateFormat"
    by code_simp
  ultimately show ?thesis by simp
qed

text \<open>
  C8. Every accepted event record has its nine text fields, its agenda and its tags
  non-empty after trimming, its tags in lower case, its date in the form \<^verbatim>\<open>YYYY-MM-DD\<close>
  and its time in the form \<^verbatim>\<open>HH:MM\<close>. The record dated \<^verbatim>\<open>"0999-06-01"\<close> is accepted on every
  host and handed to the store with the date \<^verbatim>\<open>"999-06-01"\<close>.
\<close>

theorem accepted_date_not_canonical:
  "event_preSave host year_999_event =
     Inr (year_999_event \<lparr> agenda := Some [''Intro'', ''Keynote''], tags := Some [''web'', ''ai''],
            date := ''999-06-01'', time := ''09:05'', slug := Some ''hello-world-2024'' \<rparr>)
   \<and> \<not> canonical_date ''999-06-01''"
proof -
  have "event_preSave host year_999_event =
     Inr (year_999_event \<lparr> agenda := Some [''Intro'', ''Keynote''], tags := Some [''web'', ''ai''],
            date := ''999-06-01'', time := ''09:05'', slug := Some ''hello-world-2024'' \<rparr>)"
    by code_simp
  moreover have "\<not> canonical_date ''999-06-01''"
    by (simp add: canonical_date_def)
  ultimately show ?thesis by simp
qed

text \<open>
  C9. Each normalizer returns its own output unchanged. The date \<^verbatim>\<open>"0999-06-01"\<close>, itself
  of the form \<^verbatim>\<open>YYYY-MM-DD\<close>, is normalized on every host to \<^verbatim>\<open>"999-06-01"\<close>. That string is
  outside the date-time format, so what a second normalization returns is left to the
  host; a host that reads only the format rejects it.
\<close>

theorem normalizeDate_not_idempotent:
  "canonical_date ''0999-06-01''
   \<and> normalizeDate host ''0999-06-01'' = Inr ''999-06-01''
   \<and> iso_parse ''999-06-01'' = None
   \<and> normalizeDate strict_host ''999-06-01'' = Inl InvalidDateFormat"
proof -
  have "canonical_date ''0999-06-01''"
    by code_simp
  moreover have "normalizeDate host ''0999-06-01'' = Inr ''999-06-01''"
    by code_simp
  moreover have "iso_parse ''999-06-01'' = None"
    by code_simp
  moreover have "normalizeDate strict_host ''999-06-01'' = Inl InvalidDateFormat"
    by code_simp
  ultimately show ?thesis by simp
qed

end
